theory Spec2Isabelle
  imports Main "HOL-Library.Code_Target_Nat" "HOL-Library.Sublist"
begin

section \<open>JavaScript strings and errors\<close>

text \<open>
  A JavaScript string is modelled as a \<open>string\<close>: one \<open>char\<close> per UTF-16 code unit,
  for code units below 256. The two quote characters and the backslash get names, since they
  cannot be written inside a string literal.
\<close>

abbreviation DQ :: char where "DQ \<equiv> CHR 0x22"

abbreviation SQ :: char where "SQ \<equiv> CHR 0x27"

abbreviation BSL :: char where "BSL \<equiv> CHR 0x5C"

text \<open>
  The class \<open>\s\<close> of a regular expression and the characters removed by
  \<open>String.prototype.trim\<close> are the same set: tab, line feed, vertical tab, form feed,
  carriage return, space and no-break space (the members above code unit 255 are outside
  the model).
\<close>

definition is_space :: "char \<Rightarrow> bool" where
  "is_space c = ((of_char c :: nat) \<in> {9, 10, 11, 12, 13, 32, 160})"

definition trim :: "string \<Rightarrow> string" where
  "trim s = rev (dropWhile is_space (rev (dropWhile is_space s)))"

text \<open>\<open>s.includes(c)\<close> for a one-character needle, \<open>s.endsWith(t)\<close> and \<open>s.startsWith(t)\<close>.\<close>

definition includes_chr :: "string \<Rightarrow> char \<Rightarrow> bool" where
  "includes_chr s c = (c \<in> set s)"

fun startsWith :: "string \<Rightarrow> string \<Rightarrow> bool" where
  "startsWith s [] = True"
| "startsWith [] (t # ts) = False"
| "startsWith (c # cs) (t # ts) = (c = t \<and> startsWith cs ts)"

definition endsWith :: "string \<Rightarrow> string \<Rightarrow> bool" where
  "endsWith s t = startsWith (rev s) (rev t)"

text \<open>\<open>s.includes(t)\<close> for a string needle: \<open>t\<close> starts at some position of \<open>s\<close>.\<close>

fun includes_str :: "string \<Rightarrow> string \<Rightarrow> bool" where
  "includes_str [] t = (t = [])"
| "includes_str (c # cs) t = (startsWith (c # cs) t \<or> includes_str cs t)"

text \<open>\<open>xs.join(sep)\<close>.\<close>

fun join :: "string \<Rightarrow> string list \<Rightarrow> string" where
  "join sep [] = []"
| "join sep [x] = x"
| "join sep (x # y # ys) = x @ sep @ join sep (y # ys)"

text \<open>
  A thrown value: every exception of the program is an \<open>Error\<close> or a \<open>TypeError\<close>
  carrying a message. \<open>error_message\<close> is \<open>error.message\<close>, \<open>error_string\<close> is
  \<open>String(error)\<close>, the form a template literal interpolates.
\<close>

datatype js_error = Error string | TypeError string

fun error_message :: "js_error \<Rightarrow> string" where
  "error_message (Error m) = m"
| "error_message (TypeError m) = m"

fun error_string :: "js_error \<Rightarrow> string" where
  "error_string (Error m) = ''Error: '' @ m"
| "error_string (TypeError m) = ''TypeError: '' @ m"

text \<open>
  An optional string argument used as a condition: \<open>undefined\<close> and the empty string
  are both falsy, so a falsy string behaves as an absent one.
\<close>

fun truthy :: "string option \<Rightarrow> string option" where
  "truthy None = None"
| "truthy (Some []) = None"
| "truthy (Some (c # cs)) = Some (c # cs)"

section \<open>The semver package\<close>

text \<open>
  The program delegates validation, increment and comparison of versions to the npm
  package \<open>semver\<close> (version 7), which is a dependency and not part of the repository.
  The definitions of this section follow that package's class \<open>SemVer\<close> in its default
  (strict) mode: the constructor's grammar, \<open>format\<close>, \<open>inc\<close>, \<open>compare\<close>, and the test of
  the range \<open>*\<close>.
\<close>

datatype ident = Num nat | Str string

record semver =
  major :: nat
  minor :: nat
  patch :: nat
  prerelease :: "ident list"
  build :: "string list"

definition MAX_SAFE_INTEGER :: nat where
  "MAX_SAFE_INTEGER = 9007199254740991"

definition MAX_LENGTH :: nat where
  "MAX_LENGTH = 256"

definition is_digit :: "char \<Rightarrow> bool" where
  "is_digit c = (48 \<le> (of_char c :: nat) \<and> (of_char c :: nat) \<le> 57)"

definition is_letter :: "char \<Rightarrow> bool" where
  "is_letter c = ((65 \<le> (of_char c :: nat) \<and> (of_char c :: nat) \<le> 90) \<or>
                  (97 \<le> (of_char c :: nat) \<and> (of_char c :: nat) \<le> 122))"

text \<open>The class \<open>[a-zA-Z0-9-]\<close>.\<close>

definition is_letterdashnumber :: "char \<Rightarrow> bool" where
  "is_letterdashnumber c = (is_digit c \<or> is_letter c \<or> c = CHR ''-'')"

text \<open>\<open>s.split(d)\<close> for a one-character separator: never empty.\<close>

fun split_on :: "char \<Rightarrow> string \<Rightarrow> string list" where
  "split_on d [] = [[]]"
| "split_on d (c # cs) =
     (if c = d then [] # split_on d cs
      else (case split_on d cs of [] \<Rightarrow> [[c]] | x # xs \<Rightarrow> (c # x) # xs))"

text \<open>The value of a string of decimal digits (the unary plus of the constructor).\<close>

definition digit_val :: "char \<Rightarrow> nat" where
  "digit_val c = of_char c - 48"

definition nat_of_digits :: "string \<Rightarrow> nat" where
  "nat_of_digits s = foldl (\<lambda>n c. 10 * n + digit_val c) 0 s"

text \<open>\<open>NUMERICIDENTIFIER\<close>: \<open>0|[1-9]\d*\<close>.\<close>

definition is_numeric_identifier :: "string \<Rightarrow> bool" where
  "is_numeric_identifier s =
     (s \<noteq> [] \<and> list_all is_digit s \<and> (hd s = CHR ''0'' \<longrightarrow> length s = 1))"

text \<open>
  \<open>PRERELEASEIDENTIFIER\<close>: a numeric identifier, or \<open>\d*[a-zA-Z-][a-zA-Z0-9-]*\<close>, which is
  any non-empty string over \<open>[a-zA-Z0-9-]\<close> with a character that is not a digit.
\<close>

definition is_prerelease_identifier :: "string \<Rightarrow> bool" where
  "is_prerelease_identifier s =
     (is_numeric_identifier s \<or>
      (list_all is_letterdashnumber s \<and> list_ex (\<lambda>c. \<not> is_digit c) s))"

text \<open>\<open>BUILDIDENTIFIER\<close>: \<open>[a-zA-Z0-9-]+\<close>.\<close>

definition is_build_identifier :: "string \<Rightarrow> bool" where
  "is_build_identifier s = (s \<noteq> [] \<and> list_all is_letterdashnumber s)"

text \<open>
  The constructor turns a prerelease identifier made of digits into a number when that
  number is below \<open>MAX_SAFE_INTEGER\<close>, and keeps every other identifier as a string.
\<close>

definition to_ident :: "string \<Rightarrow> ident" where
  "to_ident s =
     (if s \<noteq> [] \<and> list_all is_digit s \<and> nat_of_digits s < MAX_SAFE_INTEGER
      then Num (nat_of_digits s) else Str s)"

text \<open>
  The three parts of \<open>v?MAIN(-PRERELEASE)?(+BUILD)?\<close>. The main version holds digits
  and dots only, so it ends at the first \<open>-\<close> or \<open>+\<close>; a prerelease holds no \<open>+\<close>, so it
  ends at the first \<open>+\<close>; the build runs to the end.
\<close>

definition main_part :: "string \<Rightarrow> string" where
  "main_part s = takeWhile (\<lambda>c. c \<noteq> CHR ''-'' \<and> c \<noteq> CHR ''+'') s"

definition prerelease_part :: "string \<Rightarrow> string option" where
  "prerelease_part s =
     (case dropWhile (\<lambda>c. c \<noteq> CHR ''-'' \<and> c \<noteq> CHR ''+'') s of
        [] \<Rightarrow> None
      | c # r \<Rightarrow> if c = CHR ''-'' then Some (takeWhile (\<lambda>c. c \<noteq> CHR ''+'') r) else None)"

definition build_part :: "string \<Rightarrow> string option" where
  "build_part s =
     (case dropWhile (\<lambda>c. c \<noteq> CHR ''+'') (dropWhile (\<lambda>c. c \<noteq> CHR ''-'' \<and> c \<noteq> CHR ''+'') s) of
        [] \<Rightarrow> None
      | c # r \<Rightarrow> Some r)"

definition strip_v :: "string \<Rightarrow> string" where
  "strip_v s = (case s of [] \<Rightarrow> [] | c # r \<Rightarrow> if c = CHR ''v'' then r else s)"

definition main_numbers :: "string \<Rightarrow> string list" where
  "main_numbers s = split_on (CHR ''.'') (main_part (strip_v s))"

definition prerelease_ids :: "string \<Rightarrow> string list" where
  "prerelease_ids s =
     (case prerelease_part (strip_v s) of None \<Rightarrow> [] | Some p \<Rightarrow> split_on (CHR ''.'') p)"

definition build_ids :: "string \<Rightarrow> string list" where
  "build_ids s =
     (case build_part (strip_v s) of None \<Rightarrow> [] | Some b \<Rightarrow> split_on (CHR ''.'') b)"

text \<open>The test of the regular expression \<open>FULL\<close> on a (trimmed) string.\<close>

definition matches_FULL :: "string \<Rightarrow> bool" where
  "matches_FULL s =
     (length (main_numbers s) = 3
      \<and> list_all is_numeric_identifier (main_numbers s)
      \<and> list_all is_prerelease_identifier (prerelease_ids s)
      \<and> list_all is_build_identifier (build_ids s))"

text \<open>
  \<open>new SemVer(version)\<close>, with the constructor's three kinds of \<open>TypeError\<close>. The
  length limit applies to the string as given, the grammar to the trimmed string.
\<close>

definition new_SemVer :: "string \<Rightarrow> js_error + semver" where
  "new_SemVer version =
     (if length version > MAX_LENGTH
      then Inl (TypeError ''version is longer than 256 characters'')
      else
        let s = trim version in
          if \<not> matches_FULL s then Inl (TypeError (''Invalid Version: '' @ version))
          else if nat_of_digits (main_numbers s ! 0) > MAX_SAFE_INTEGER
            then Inl (TypeError ''Invalid major version'')
          else if nat_of_digits (main_numbers s ! 1) > MAX_SAFE_INTEGER
            then Inl (TypeError ''Invalid minor version'')
          else if nat_of_digits (main_numbers s ! 2) > MAX_SAFE_INTEGER
            then Inl (TypeError ''Invalid patch version'')
          else Inr \<lparr> major = nat_of_digits (main_numbers s ! 0),
                     minor = nat_of_digits (main_numbers s ! 1),
                     patch = nat_of_digits (main_numbers s ! 2),
                     prerelease = map to_ident (prerelease_ids s),
                     build = build_ids s \<rparr>)"

text \<open>\<open>semver.parse(version)\<close>: \<open>null\<close> where the constructor throws.\<close>

definition parse_semver :: "string \<Rightarrow> semver option" where
  "parse_semver version = (case new_SemVer version of Inl e \<Rightarrow> None | Inr v \<Rightarrow> Some v)"

text \<open>\<open>semver.valid(version) !== null\<close>.\<close>

definition semver_valid :: "string \<Rightarrow> bool" where
  "semver_valid version = (parse_semver version \<noteq> None)"

text \<open>A number in a template literal: its decimal digits.\<close>

fun show_nat :: "nat \<Rightarrow> string" where
  "show_nat n =
     (if n < 10 then [char_of (48 + n)]
      else show_nat (n div 10) @ [char_of (48 + n mod 10)])"

declare show_nat.simps [simp del]

fun show_ident :: "ident \<Rightarrow> string" where
  "show_ident (Num n) = show_nat n"
| "show_ident (Str s) = s"

text \<open>\<open>SemVer.format\<close>, the value of the field \<open>version\<close>: the build is not part of it.\<close>

definition format_semver :: "semver \<Rightarrow> string" where
  "format_semver v =
     show_nat (major v) @ ''.'' @ show_nat (minor v) @ ''.'' @ show_nat (patch v) @
     (if prerelease v = [] then [] else ''-'' @ join ''.'' (map show_ident (prerelease v)))"

datatype release_type = RelMajor | RelMinor | RelPatch

text \<open>
  \<open>SemVer.inc(release)\<close> for the three release types the program uses. A prerelease
  version is bumped up to its own release: \<open>1.2.0-5\<close> patches to \<open>1.2.0\<close>, \<open>1.2.0-5\<close>
  bumps minor to \<open>1.2.0\<close>, \<open>1.0.0-5\<close> bumps major to \<open>1.0.0\<close>.
\<close>

fun inc_SemVer :: "semver \<Rightarrow> release_type \<Rightarrow> semver" where
  "inc_SemVer v RelMajor =
     v\<lparr> major := (if minor v \<noteq> 0 \<or> patch v \<noteq> 0 \<or> prerelease v = []
                   then major v + 1 else major v),
        minor := 0, patch := 0, prerelease := [] \<rparr>"
| "inc_SemVer v RelMinor =
     v\<lparr> minor := (if patch v \<noteq> 0 \<or> prerelease v = [] then minor v + 1 else minor v),
        patch := 0, prerelease := [] \<rparr>"
| "inc_SemVer v RelPatch =
     v\<lparr> patch := (if prerelease v = [] then patch v + 1 else patch v),
        prerelease := [] \<rparr>"

text \<open>\<open>semver.inc(version, release)\<close>: the \<open>version\<close> field of the result, \<open>null\<close> when
  \<open>version\<close> is invalid.\<close>

definition semver_inc :: "string \<Rightarrow> release_type \<Rightarrow> string option" where
  "semver_inc version release =
     (case new_SemVer version of
        Inl e \<Rightarrow> None
      | Inr v \<Rightarrow> Some (format_semver (inc_SemVer v release)))"

text \<open>
  The unary plus on a string of decimal digits gives the double nearest to its value,
  the even one of two that are equally near. \<open>to_double\<close> is that double for the value
  \<open>n\<close>: a value of at most 53 bits is a double; a longer one keeps its 53 leading bits,
  rounded by the bits that follow. \<open>2 ^ 1024\<close> stands for \<open>Infinity\<close>, the result for every
  value that rounds to more than 1024 bits.
\<close>

fun bit_length :: "nat \<Rightarrow> nat" where
  "bit_length n = (if n = 0 then 0 else Suc (bit_length (n div 2)))"

declare bit_length.simps [simp del]

definition to_double :: "nat \<Rightarrow> nat" where
  "to_double n =
     (let e = bit_length n - 53;
          q = n div 2 ^ e;
          r = n mod 2 ^ e;
          q' = (if 2 * r > 2 ^ e \<or> (2 * r = 2 ^ e \<and> odd q) then q + 1 else q)
      in if e + bit_length q' > 1024 then 2 ^ 1024 else q' * 2 ^ e)"

text \<open>
  \<open>compareIdentifiers\<close>: two identifiers that are numbers or strings of digits compare as
  numbers, the strings of digits (which the constructor kept for values of
  \<open>MAX_SAFE_INTEGER\<close> or more) after their conversion to doubles; such an identifier is
  below every other string; other strings compare by code units.
\<close>

definition cmp_nat :: "nat \<Rightarrow> nat \<Rightarrow> int" where
  "cmp_nat a b = (if a = b then 0 else if a < b then - 1 else 1)"

fun str_less :: "string \<Rightarrow> string \<Rightarrow> bool" where
  "str_less [] [] = False"
| "str_less [] (b # bs) = True"
| "str_less (a # as) [] = False"
| "str_less (a # as) (b # bs) =
     ((of_char a :: nat) < of_char b \<or> (a = b \<and> str_less as bs))"

fun ident_number :: "ident \<Rightarrow> nat option" where
  "ident_number (Num n) = Some n"
| "ident_number (Str s) =
     (if s \<noteq> [] \<and> list_all is_digit s then Some (to_double (nat_of_digits s)) else None)"

definition compareIdentifiers :: "ident \<Rightarrow> ident \<Rightarrow> int" where
  "compareIdentifiers a b =
     (case (ident_number a, ident_number b) of
        (Some x, Some y) \<Rightarrow> cmp_nat x y
      | (Some x, None) \<Rightarrow> - 1
      | (None, Some y) \<Rightarrow> 1
      | (None, None) \<Rightarrow>
          (if show_ident a = show_ident b then 0
           else if str_less (show_ident a) (show_ident b) then - 1 else 1))"

definition compareMain :: "semver \<Rightarrow> semver \<Rightarrow> int" where
  "compareMain a b =
     (if cmp_nat (major a) (major b) \<noteq> 0 then cmp_nat (major a) (major b)
      else if cmp_nat (minor a) (minor b) \<noteq> 0 then cmp_nat (minor a) (minor b)
      else cmp_nat (patch a) (patch b))"

fun comparePre_loop :: "ident list \<Rightarrow> ident list \<Rightarrow> int" where
  "comparePre_loop [] [] = 0"
| "comparePre_loop (a # as) [] = 1"
| "comparePre_loop [] (b # bs) = - 1"
| "comparePre_loop (a # as) (b # bs) =
     (if a = b then comparePre_loop as bs else compareIdentifiers a b)"

definition comparePre :: "semver \<Rightarrow> semver \<Rightarrow> int" where
  "comparePre a b =
     (if prerelease a \<noteq> [] \<and> prerelease b = [] then - 1
      else if prerelease a = [] \<and> prerelease b \<noteq> [] then 1
      else if prerelease a = [] \<and> prerelease b = [] then 0
      else comparePre_loop (prerelease a) (prerelease b))"

text \<open>\<open>SemVer.compare\<close>: equal version strings compare equal at once.\<close>

definition compare_SemVer :: "semver \<Rightarrow> semver \<Rightarrow> int" where
  "compare_SemVer a b =
     (if format_semver b = format_semver a then 0
      else if compareMain a b \<noteq> 0 then compareMain a b
      else comparePre a b)"

text \<open>\<open>semver.compare(a, b)\<close> builds both versions and throws where a constructor does.\<close>

definition semver_compare :: "string \<Rightarrow> string \<Rightarrow> js_error + int" where
  "semver_compare a b =
     (case new_SemVer a of
        Inl e \<Rightarrow> Inl e
      | Inr x \<Rightarrow> (case new_SemVer b of Inl e \<Rightarrow> Inl e | Inr y \<Rightarrow> Inr (compare_SemVer x y)))"

text \<open>\<open>semver.eq(a, b)\<close> is \<open>compare(a, b) === 0\<close>.\<close>

definition semver_eq :: "string \<Rightarrow> string \<Rightarrow> js_error + bool" where
  "semver_eq a b = (case semver_compare a b of Inl e \<Rightarrow> Inl e | Inr c \<Rightarrow> Inr (c = 0))"

text \<open>
  The test of the range \<open>*\<close> without the option \<open>includePrerelease\<close>: a string that is
  not a version fails it, and so does a version with a prerelease tag, since no
  comparator of the range carries a prerelease of the same release.
\<close>

definition test_any :: "string \<Rightarrow> bool" where
  "test_any version =
     (case new_SemVer version of Inl e \<Rightarrow> False | Inr v \<Rightarrow> prerelease v = [])"

text \<open>
  \<open>semver.maxSatisfying(versions, "*")\<close>: the loop keeps the first string of the list
  whose version no later satisfying string exceeds. The accumulator is \<open>max\<close>; \<open>maxSV\<close>
  is the version built from it.
\<close>

fun maxSatisfying_loop :: "string option \<Rightarrow> string list \<Rightarrow> string option" where
  "maxSatisfying_loop mx [] = mx"
| "maxSatisfying_loop mx (v # vs) =
     (if test_any v then
        (case mx of
           None \<Rightarrow> maxSatisfying_loop (Some v) vs
         | Some m \<Rightarrow>
             (if semver_compare m v = Inr (- 1) then maxSatisfying_loop (Some v) vs
              else maxSatisfying_loop mx vs))
      else maxSatisfying_loop mx vs)"

definition maxSatisfying_any :: "string list \<Rightarrow> string option" where
  "maxSatisfying_any versions = maxSatisfying_loop None versions"

section \<open>Version computation\<close>

datatype BumpMode = Patch | Minor | Major | Auto | Manual

definition isValidSemver :: "string \<Rightarrow> bool" where
  "isValidSemver version = semver_valid version"

text \<open>
  \<open>calculateNewVersion(current, bumpType, customVersion, bumpSet)\<close>. The two optional
  arguments are \<open>None\<close> when \<open>undefined\<close>. The \<open>default\<close> branch of the \<open>switch\<close> has no
  value of \<open>BumpMode\<close> left to reach it.
\<close>

definition releaseType :: "BumpMode \<Rightarrow> release_type" where
  "releaseType bumpType =
     (case bumpType of Major \<Rightarrow> RelMajor | Minor \<Rightarrow> RelMinor | _ \<Rightarrow> RelPatch)"

definition show_BumpMode :: "BumpMode \<Rightarrow> string" where
  "show_BumpMode bumpType =
     (case bumpType of Patch \<Rightarrow> ''patch'' | Minor \<Rightarrow> ''minor'' | Major \<Rightarrow> ''major''
      | Auto \<Rightarrow> ''auto'' | Manual \<Rightarrow> ''manual'')"

definition calculateNewVersion ::
  "string \<Rightarrow> BumpMode \<Rightarrow> string option \<Rightarrow> string option \<Rightarrow> js_error + string" where
  "calculateNewVersion current bumpType customVersion bumpSet =
     (if bumpType = Manual then
        (case truthy bumpSet of
           Some b \<Rightarrow>
             if \<not> isValidSemver b then Inl (Error (''invalid bumpSet version: '' @ b))
             else Inr b
         | None \<Rightarrow>
             (case truthy customVersion of
                None \<Rightarrow> Inl (Error
                  (''either bumpSet (in reliverse.ts) or --customVersion required when bumpType is '' @
                   [SQ] @ ''manual'' @ [SQ]))
              | Some c \<Rightarrow>
                  if \<not> isValidSemver c then Inl (Error (''invalid custom version: '' @ c))
                  else Inr c))
      else
        (case semver_inc current (releaseType bumpType) of
           None \<Rightarrow> Inl (Error (''failed to bump version '' @ current @ '' with type '' @
                               show_BumpMode bumpType))
         | Some newVersion \<Rightarrow> Inr newVersion))"

text \<open>\<open>compareVersions\<close> and \<open>getLatestVersion\<close>.\<close>

definition compareVersions :: "string \<Rightarrow> string \<Rightarrow> js_error + int" where
  "compareVersions version1 version2 = semver_compare version1 version2"

definition getLatestVersion :: "string list \<Rightarrow> string option" where
  "getLatestVersion versions =
     (let validVersions = filter isValidSemver versions
      in if length validVersions = 0 then None else maxSatisfying_any validVersions)"

text \<open>
  \<open>autoIncrementVersion(oldVersion, bumpMode)\<close> of the command-line implementation, whose
  bump modes are \<open>autoMajor\<close>, \<open>autoMinor\<close> and \<open>autoPatch\<close>.
\<close>

datatype AutoBumpMode = AutoMajor | AutoMinor | AutoPatch

definition releaseTypeMap :: "AutoBumpMode \<Rightarrow> release_type" where
  "releaseTypeMap bumpMode =
     (case bumpMode of AutoMajor \<Rightarrow> RelMajor | AutoMinor \<Rightarrow> RelMinor | AutoPatch \<Rightarrow> RelPatch)"

definition show_AutoBumpMode :: "AutoBumpMode \<Rightarrow> string" where
  "show_AutoBumpMode bumpMode =
     (case bumpMode of AutoMajor \<Rightarrow> ''autoMajor'' | AutoMinor \<Rightarrow> ''autoMinor''
      | AutoPatch \<Rightarrow> ''autoPatch'')"

definition autoIncrementVersion :: "string \<Rightarrow> AutoBumpMode \<Rightarrow> js_error + string" where
  "autoIncrementVersion oldVersion bumpMode =
     (if \<not> semver_valid oldVersion
      then Inl (Error (''Can'' @ [SQ] @ ''t auto-increment invalid version: '' @ oldVersion))
      else
        (case semver_inc oldVersion (releaseTypeMap bumpMode) of
           None \<Rightarrow> Inl (Error (''semver.inc failed for '' @ oldVersion @ '' and mode '' @
                               show_AutoBumpMode bumpMode))
         | Some newVer \<Rightarrow> Inr newVer))"

section \<open>Version patterns\<close>

text \<open>
  The two regular expressions of \<open>versionPatterns\<close> are sequences of pieces that never
  need backtracking: a literal, \<open>\s*\<close> followed by a character that is not whitespace,
  and \<open>[^"']+\<close> followed by a quote. Each piece is a function from the input to the input
  left after it, \<open>None\<close> when the piece does not match.
\<close>

text \<open>A literal at the start of the input.\<close>

definition lit :: "string \<Rightarrow> string \<Rightarrow> string option" where
  "lit t s = (if startsWith s t then Some (drop (length t) s) else None)"

text \<open>\<open>\s*\<close> followed by one character of the class \<open>cls\<close>, which holds no whitespace.\<close>

fun skip_to :: "(char \<Rightarrow> bool) \<Rightarrow> string \<Rightarrow> string option" where
  "skip_to cls [] = None"
| "skip_to cls (c # cs) =
     (if cls c then Some cs else if is_space c then skip_to cls cs else None)"

text \<open>
  The characters up to the next quote and the input after that quote: \<open>([^"']*)["']\<close>.
  The group \<open>([^"']+)\<close> asks for a value that is not empty.
\<close>

fun value_at :: "(char \<Rightarrow> bool) \<Rightarrow> string \<Rightarrow> (string \<times> string) option" where
  "value_at isq [] = None"
| "value_at isq (c # cs) =
     (if isq c then Some ([], cs)
      else (case value_at isq cs of None \<Rightarrow> None | Some (v, r) \<Rightarrow> Some (c # v, r)))"

text \<open>
  \<open>key\s*[sep]\s*[quote]([^quote]+)[quote]\<close> at the start of the input: the captured
  value and the input after the closing quote.
\<close>

definition assignment_at ::
  "string \<Rightarrow> (char \<Rightarrow> bool) \<Rightarrow> (char \<Rightarrow> bool) \<Rightarrow> string \<Rightarrow> (string \<times> string) option" where
  "assignment_at key issep isq s =
     (case lit key s of
        None \<Rightarrow> None
      | Some r1 \<Rightarrow>
          (case skip_to issep r1 of
             None \<Rightarrow> None
           | Some r2 \<Rightarrow>
               (case skip_to isq r2 of
                  None \<Rightarrow> None
                | Some r3 \<Rightarrow>
                    (case value_at isq r3 of
                       None \<Rightarrow> None
                     | Some (v, rest) \<Rightarrow> if v = [] then None else Some (v, rest)))))"

text \<open>
  A match: the matched text, the two capture groups (\<open>None\<close> when \<open>undefined\<close>) and the
  input after the match.
\<close>

record re_match =
  matched :: string
  group1 :: "string option"
  group2 :: "string option"
  after :: string

definition mk_match :: "string \<Rightarrow> string option \<Rightarrow> string option \<Rightarrow> string \<Rightarrow> re_match" where
  "mk_match s g1 g2 rest =
     \<lparr> matched = take (length s - length rest) s, group1 = g1, group2 = g2, after = rest \<rparr>"

definition is_dquote :: "char \<Rightarrow> bool" where
  "is_dquote c = (c = DQ)"

definition is_quote :: "char \<Rightarrow> bool" where
  "is_quote c = (c = DQ \<or> c = SQ)"

definition is_colon :: "char \<Rightarrow> bool" where
  "is_colon c = (c = CHR '':'')"

definition is_eq_or_colon :: "char \<Rightarrow> bool" where
  "is_eq_or_colon c = (c = CHR ''='' \<or> c = CHR '':'')"

definition version_key_json :: string where
  "version_key_json = [DQ] @ ''version'' @ [DQ]"

text \<open>\<open>versionPatterns.packageJson\<close>, \<open>/"version"\s*:\s*"([^"]+)"/\<close>, at the start of the input.\<close>

definition packageJson_at :: "string \<Rightarrow> re_match option" where
  "packageJson_at s =
     (case assignment_at version_key_json is_colon is_dquote s of
        None \<Rightarrow> None
      | Some (v, rest) \<Rightarrow> Some (mk_match s (Some v) None rest))"

text \<open>
  \<open>versionPatterns.typescript\<close>,
  \<open>/version\s*[=:]\s*["']([^"']+)["']|version\s*:\s*["']([^"']+)["']\s*,/\<close>, at the start
  of the input: the first alternative is tried first, the second only where the first
  fails.
\<close>

definition typescript_at :: "string \<Rightarrow> re_match option" where
  "typescript_at s =
     (case assignment_at ''version'' is_eq_or_colon is_quote s of
        Some (v, rest) \<Rightarrow> Some (mk_match s (Some v) None rest)
      | None \<Rightarrow>
          (case assignment_at ''version'' is_colon is_quote s of
             None \<Rightarrow> None
           | Some (v, rest) \<Rightarrow>
               (case skip_to (\<lambda>c. c = CHR '','') rest of
                  None \<Rightarrow> None
                | Some rest' \<Rightarrow> Some (mk_match s None (Some v) rest'))))"

text \<open>
  \<open>regex.exec(content)\<close> for a regular expression without the flags \<open>g\<close> and \<open>y\<close>: the match
  at the leftmost position that has one, with the text before it.
\<close>

fun exec :: "(string \<Rightarrow> re_match option) \<Rightarrow> string \<Rightarrow> (string \<times> re_match) option" where
  "exec re [] = (case re [] of None \<Rightarrow> None | Some m \<Rightarrow> Some ([], m))"
| "exec re (c # cs) =
     (case re (c # cs) of
        Some m \<Rightarrow> Some ([], m)
      | None \<Rightarrow> (case exec re cs of None \<Rightarrow> None | Some (pre, m) \<Rightarrow> Some (c # pre, m)))"

definition test :: "(string \<Rightarrow> re_match option) \<Rightarrow> string \<Rightarrow> bool" where
  "test re content = (exec re content \<noteq> None)"

text \<open>
  \<open>GetSubstitution\<close> of the language standard for a regular expression with one capture
  group: the expansion of the \<open>$\<close> patterns of a replacement string. The arguments are the
  matched text, the text before and after the match, the first capture and the template.
\<close>

fun GetSubstitution :: "string \<Rightarrow> string \<Rightarrow> string \<Rightarrow> string \<Rightarrow> string \<Rightarrow> string" where
  "GetSubstitution mt pre post cap [] = []"
| "GetSubstitution mt pre post cap (c # t) =
     (if c \<noteq> CHR ''$'' then c # GetSubstitution mt pre post cap t
      else
        (case t of
           [] \<Rightarrow> [c]
         | d # t1 \<Rightarrow>
             if d = CHR ''$'' then CHR ''$'' # GetSubstitution mt pre post cap t1
             else if d = CHR 0x60 then pre @ GetSubstitution mt pre post cap t1
             else if d = CHR ''&'' then mt @ GetSubstitution mt pre post cap t1
             else if d = SQ then post @ GetSubstitution mt pre post cap t1
             else if is_digit d then
               (case t1 of
                  [] \<Rightarrow> (if digit_val d = 1 then cap else [c, d])
                | e # t2 \<Rightarrow>
                    if is_digit e \<and> 10 * digit_val d + digit_val e \<le> 1
                    then (if 10 * digit_val d + digit_val e = 1 then cap else [c, d, e])
                         @ GetSubstitution mt pre post cap t2
                    else (if digit_val d = 1 then cap else [c, d])
                         @ GetSubstitution mt pre post cap t1)
             else c # GetSubstitution mt pre post cap t))"

text \<open>\<open>content.replace(regex, template)\<close> and \<open>content.replace(regex, callback)\<close>: the
  first match only, since the regular expressions are not global.\<close>

definition replace_string :: "(string \<Rightarrow> re_match option) \<Rightarrow> string \<Rightarrow> string \<Rightarrow> string" where
  "replace_string re template content =
     (case exec re content of
        None \<Rightarrow> content
      | Some (pre, m) \<Rightarrow>
          pre @ GetSubstitution (matched m) pre (after m)
                  (case group1 m of None \<Rightarrow> [] | Some g \<Rightarrow> g) template
              @ after m)"

definition replace_fn :: "(string \<Rightarrow> re_match option) \<Rightarrow> (string \<Rightarrow> string) \<Rightarrow> string \<Rightarrow> string" where
  "replace_fn re callback content =
     (case exec re content of
        None \<Rightarrow> content
      | Some (pre, m) \<Rightarrow> pre @ callback (matched m) @ after m)"

section \<open>File types, extraction and substitution\<close>

datatype FileType = PackageJson | Typescript | Unknown

definition detectFileType :: "string \<Rightarrow> string \<Rightarrow> FileType" where
  "detectFileType filePath content =
     (if endsWith filePath ''package.json'' then PackageJson
      else if (endsWith filePath ''.ts'' \<or> endsWith filePath ''.js'') \<and> test typescript_at content
        then Typescript
      else Unknown)"

definition extractVersion :: "string \<Rightarrow> FileType \<Rightarrow> string option" where
  "extractVersion content fileType =
     (case fileType of
        PackageJson \<Rightarrow>
          (case exec packageJson_at content of None \<Rightarrow> None | Some (pre, m) \<Rightarrow> group1 m)
      | Typescript \<Rightarrow>
          (case exec typescript_at content of
             None \<Rightarrow> None
           | Some (pre, m) \<Rightarrow> (case group1 m of Some v \<Rightarrow> Some v | None \<Rightarrow> group2 m))
      | Unknown \<Rightarrow> None)"

text \<open>The callback of the \<open>typescript\<close> case of \<open>updateVersionInContent\<close>.\<close>

definition typescript_replacement :: "string \<Rightarrow> string \<Rightarrow> string" where
  "typescript_replacement newVersion match =
     (let delimiter = (if includes_chr match DQ then [DQ] else [SQ]);
          operator = (if includes_chr match (CHR ''='') then ''='' else '':'');
          hasComma = includes_chr match (CHR '','')
      in ''version'' @ operator @ '' '' @ delimiter @ newVersion @ delimiter @
         (if hasComma then '','' else []))"

definition updateVersionInContent :: "string \<Rightarrow> string \<Rightarrow> FileType \<Rightarrow> js_error + string" where
  "updateVersionInContent content newVersion fileType =
     (case fileType of
        PackageJson \<Rightarrow>
          Inr (replace_string packageJson_at
                 (version_key_json @ '': '' @ [DQ] @ newVersion @ [DQ]) content)
      | Typescript \<Rightarrow>
          Inr (replace_fn typescript_at (typescript_replacement newVersion) content)
      | Unknown \<Rightarrow> Inl (Error ''unsupported file type for version update''))"

section \<open>The file system\<close>

text \<open>
  The state the program acts on. A path holds nothing, a file that cannot be read (with
  the error reading it raises) or a file with its content; \<open>write_error\<close> gives the
  paths that cannot be written, with the error writing raises; \<open>written\<close> logs every
  write that succeeded, so that a write of an unchanged content is visible too.
\<close>

type_synonym path = string

datatype node = Absent | Unreadable js_error | File string

record filesystem =
  node_of :: "path \<Rightarrow> node"
  write_error :: "path \<Rightarrow> js_error option"
  written :: "path list"

definition ENOENT :: "path \<Rightarrow> js_error" where
  "ENOENT p = Error (''ENOENT: no such file or directory, open '' @ [SQ] @ p @ [SQ])"

definition readFile :: "filesystem \<Rightarrow> path \<Rightarrow> js_error + string" where
  "readFile fs p =
     (case node_of fs p of
        File content \<Rightarrow> Inr content
      | Unreadable e \<Rightarrow> Inl e
      | Absent \<Rightarrow> Inl (ENOENT p))"

definition writeFile :: "filesystem \<Rightarrow> path \<Rightarrow> string \<Rightarrow> js_error + filesystem" where
  "writeFile fs p content =
     (case write_error fs p of
        Some e \<Rightarrow> Inl e
      | None \<Rightarrow> Inr (fs\<lparr> node_of := (node_of fs)(p := File content),
                          written := written fs @ [p] \<rparr>))"

definition pathExists :: "filesystem \<Rightarrow> path \<Rightarrow> bool" where
  "pathExists fs p = (node_of fs p \<noteq> Absent)"

section \<open>File analysis\<close>

text \<open>The fields of \<open>FileAnalysis\<close>, each with the prefix \<open>a_\<close>.\<close>

record FileAnalysis =
  a_file :: path
  a_supported :: bool
  a_detectedVersion :: "string option"
  a_versionMismatch :: bool
  a_reason :: string
  a_fileType :: FileType

text \<open>
  The body of the loop of \<open>analyzeFiles\<close>: the result pushed for one file. The \<open>catch\<close>
  block receives what \<open>readFile\<close> throws and also what \<open>semver.eq\<close> throws inside the
  \<open>try\<close> block.
\<close>

definition analysis_of_error :: "path \<Rightarrow> js_error \<Rightarrow> FileAnalysis" where
  "analysis_of_error file' err =
     \<lparr> a_file = file', a_supported = False, a_detectedVersion = None,
       a_versionMismatch = False, a_reason = ''read error: '' @ error_string err,
       a_fileType = Unknown \<rparr>"

definition analyzeFile :: "filesystem \<Rightarrow> string \<Rightarrow> path \<Rightarrow> FileAnalysis" where
  "analyzeFile fs referenceVersion file' =
     (case readFile fs file' of
        Inl err \<Rightarrow> analysis_of_error file' err
      | Inr content \<Rightarrow>
          let fileType' = detectFileType file' content;
              detectedVersion = extractVersion content fileType'
          in
            if fileType' = Unknown then
              \<lparr> a_file = file', a_supported = False, a_detectedVersion = detectedVersion,
                a_versionMismatch = False, a_reason = ''unsupported file type'',
                a_fileType = fileType' \<rparr>
            else
              (case truthy detectedVersion of
                 None \<Rightarrow>
                   \<lparr> a_file = file', a_supported = False, a_detectedVersion = detectedVersion,
                     a_versionMismatch = False, a_reason = ''no version field found'',
                     a_fileType = fileType' \<rparr>
               | Some detected \<Rightarrow>
                   (case semver_eq detected referenceVersion of
                      Inl err \<Rightarrow> analysis_of_error file' err
                    | Inr equal \<Rightarrow>
                        if \<not> equal then
                          \<lparr> a_file = file', a_supported = True,
                            a_detectedVersion = detectedVersion, a_versionMismatch = True,
                            a_reason = ''version mismatch: found '' @ detected @
                                       '', expected '' @ referenceVersion,
                            a_fileType = fileType' \<rparr>
                        else
                          \<lparr> a_file = file', a_supported = True,
                            a_detectedVersion = detectedVersion, a_versionMismatch = False,
                            a_reason = ''ok'', a_fileType = fileType' \<rparr>)))"

text \<open>\<open>analyzeFiles(files, referenceVersion)\<close>: the loop, with the array \<open>results\<close>.\<close>

fun analyzeFiles_loop ::
  "filesystem \<Rightarrow> string \<Rightarrow> FileAnalysis list \<Rightarrow> path list \<Rightarrow> FileAnalysis list" where
  "analyzeFiles_loop fs referenceVersion results [] = results"
| "analyzeFiles_loop fs referenceVersion results (file' # files) =
     analyzeFiles_loop fs referenceVersion
       (results @ [analyzeFile fs referenceVersion file']) files"

definition analyzeFiles :: "filesystem \<Rightarrow> path list \<Rightarrow> string \<Rightarrow> FileAnalysis list" where
  "analyzeFiles fs files referenceVersion = analyzeFiles_loop fs referenceVersion [] files"

section \<open>The batch update of the library\<close>

text \<open>
  What the program takes from outside the repository: the indexing of a parsed JSON
  text, \<open>JSON.parse(content)[field]\<close>, which is the string found there (\<open>None\<close> when the
  value is absent or not a string) or the error the parsing throws; and the test of a
  file path against the regular expression that \<open>globToRegex\<close> builds from a glob.
\<close>

record js_env =
  json_field :: "string \<Rightarrow> string \<Rightarrow> js_error + string option"
  glob_test :: "string \<Rightarrow> path \<Rightarrow> bool"

definition field_not_found :: "string \<Rightarrow> path \<Rightarrow> js_error" where
  "field_not_found field filePath =
     Error (''field '' @ [SQ] @ field @ [SQ] @ '' not found in '' @ filePath)"

text \<open>
  The pattern \<open>field\s*[=:]\s*["']([^"']+)["']\<close> that \<open>getCurrentVersion\<close> builds for a file
  that is not a manifest, for a field name without regular-expression operators.
\<close>

definition field_at :: "string \<Rightarrow> string \<Rightarrow> re_match option" where
  "field_at field s =
     (case assignment_at field is_eq_or_colon is_quote s of
        None \<Rightarrow> None
      | Some (v, rest) \<Rightarrow> Some (mk_match s (Some v) None rest))"

definition getCurrentVersion ::
  "js_env \<Rightarrow> filesystem \<Rightarrow> path \<Rightarrow> string \<Rightarrow> js_error + string" where
  "getCurrentVersion env fs filePath field =
     (case readFile fs filePath of
        Inl e \<Rightarrow> Inl e
      | Inr content \<Rightarrow>
          if endsWith filePath ''package.json'' then
            (case json_field env content field of
               Inl e \<Rightarrow> Inl e
             | Inr value \<Rightarrow>
                 (case truthy value of
                    None \<Rightarrow> Inl (field_not_found field filePath)
                  | Some v \<Rightarrow> Inr v))
          else
            (case exec (field_at field) content of
               None \<Rightarrow> Inl (field_not_found field filePath)
             | Some (pre, m) \<Rightarrow>
                 (case truthy (group1 m) of
                    None \<Rightarrow> Inl (field_not_found field filePath)
                  | Some v \<Rightarrow> Inr v)))"

definition matchesGlobs :: "js_env \<Rightarrow> path \<Rightarrow> string list \<Rightarrow> bool" where
  "matchesGlobs env filePath globs =
     (if length globs = 0 then True else list_ex (\<lambda>glob. glob_test env glob filePath) globs)"

text \<open>The entries of \<open>updateResults\<close>, each field with the prefix \<open>u_\<close>.\<close>

record UpdateResult =
  u_file :: path
  u_success :: bool
  u_error :: "string option"

definition succeeded :: "path \<Rightarrow> UpdateResult" where
  "succeeded file' = \<lparr> u_file = file', u_success = True, u_error = None \<rparr>"

definition failed :: "path \<Rightarrow> js_error \<Rightarrow> UpdateResult" where
  "failed file' e = \<lparr> u_file = file', u_success = False, u_error = Some (error_message e) \<rparr>"

text \<open>
  The loop of \<open>bumpVersion\<close> over the filtered files, with the file system and the array
  \<open>updateResults\<close> as its state. The \<open>catch\<close> block of an iteration records the failure
  and the loop goes on.
\<close>

fun bumpVersion_loop ::
  "bool \<Rightarrow> string \<Rightarrow> filesystem \<Rightarrow> UpdateResult list \<Rightarrow> path list
     \<Rightarrow> filesystem \<times> UpdateResult list" where
  "bumpVersion_loop dryRun newVersion fs updateResults [] = (fs, updateResults)"
| "bumpVersion_loop dryRun newVersion fs updateResults (file' # files) =
     (case readFile fs file' of
        Inl e \<Rightarrow> bumpVersion_loop dryRun newVersion fs (updateResults @ [failed file' e]) files
      | Inr content \<Rightarrow>
          if detectFileType file' content = Unknown
          then bumpVersion_loop dryRun newVersion fs updateResults files
          else
            (case truthy (extractVersion content (detectFileType file' content)) of
               None \<Rightarrow> bumpVersion_loop dryRun newVersion fs updateResults files
             | Some currentFileVersion \<Rightarrow>
                 (case updateVersionInContent content newVersion
                         (detectFileType file' content) of
                    Inl e \<Rightarrow>
                      bumpVersion_loop dryRun newVersion fs
                        (updateResults @ [failed file' e]) files
                  | Inr updatedContent \<Rightarrow>
                      if dryRun
                      then bumpVersion_loop dryRun newVersion fs
                             (updateResults @ [succeeded file']) files
                      else
                        (case writeFile fs file' updatedContent of
                           Inl e \<Rightarrow>
                             bumpVersion_loop dryRun newVersion fs
                               (updateResults @ [failed file' e]) files
                         | Inr fs' \<Rightarrow>
                             bumpVersion_loop dryRun newVersion fs'
                               (updateResults @ [succeeded file']) files))))"

text \<open>The options of \<open>bumpVersion\<close> after their defaults, each with the prefix \<open>o_\<close>.\<close>

record BumpOptions =
  o_dryRun :: bool
  o_verbose :: bool
  o_customVersion :: "string option"

definition show_undefined :: "string option \<Rightarrow> string" where
  "show_undefined x = (case x of None \<Rightarrow> ''undefined'' | Some s \<Rightarrow> s)"

definition failures_error :: "UpdateResult list \<Rightarrow> js_error" where
  "failures_error failures =
     Error (''failed to update version in files: '' @
            join '', '' (map (\<lambda>f. u_file f @ '': '' @ show_undefined (u_error f)) failures))"

text \<open>
  \<open>bumpVersion(bumpType, files, options, globs, bumpSet)\<close>: the file system it leaves
  and either the error it throws or nothing.
\<close>

definition bumpVersion ::
  "js_env \<Rightarrow> filesystem \<Rightarrow> BumpMode \<Rightarrow> path list \<Rightarrow> BumpOptions \<Rightarrow> string list \<Rightarrow> string option
     \<Rightarrow> filesystem \<times> (js_error + unit)" where
  "bumpVersion env fs bumpType files options globs bumpSet =
     (case getCurrentVersion env fs ''package.json'' ''version'' of
        Inl e \<Rightarrow> (fs, Inl e)
      | Inr currentVersion \<Rightarrow>
          (case calculateNewVersion currentVersion bumpType (o_customVersion options) bumpSet of
             Inl e \<Rightarrow> (fs, Inl e)
           | Inr newVersion \<Rightarrow>
               (case bumpVersion_loop (o_dryRun options) newVersion fs []
                       (filter (\<lambda>file'. matchesGlobs env file' globs) files) of
                  (fs', updateResults) \<Rightarrow>
                    if length (filter (\<lambda>r. \<not> u_success r) updateResults) > 0
                    then (fs', Inl (failures_error (filter (\<lambda>r. \<not> u_success r) updateResults)))
                    else (fs', Inr ()))))"

section \<open>Filters and glob patterns\<close>

text \<open>
  The first step of \<open>bumpVersions\<close>: the loop that turns \<open>bumpFilter\<close> into
  \<open>filePatterns\<close>. \<open>filePatterns_loop\<close> is the \<open>for\<close> loop, its first argument the array
  built so far.
\<close>

fun filePatterns_loop :: "string list \<Rightarrow> string list \<Rightarrow> string list" where
  "filePatterns_loop filePatterns [] = filePatterns"
| "filePatterns_loop filePatterns (filter' # rest) =
     (let trimmed = trim filter' in
        if trimmed = [] then filePatterns_loop filePatterns rest
        else if includes_chr trimmed (CHR ''*'') \<or> includes_chr trimmed (CHR ''?'')
          then filePatterns_loop (filePatterns @ [trimmed]) rest
        else if includes_chr trimmed (CHR ''/'') \<or> includes_chr trimmed BSL
          then filePatterns_loop (filePatterns @ [''**/'' @ trimmed]) rest
        else if includes_chr trimmed (CHR ''.'')
          then filePatterns_loop (filePatterns @ [''**/'' @ trimmed]) rest
        else filePatterns_loop (filePatterns @ [''**/'' @ trimmed @ ''.*'']) rest)"

definition filePatterns_of :: "string list \<Rightarrow> string list" where
  "filePatterns_of bumpFilter =
     (if length bumpFilter > 0 then filePatterns_loop [] bumpFilter
      else [''**/package.json''])"

section \<open>The batch update of the command-line implementation\<close>

text \<open>
  The command-line implementation takes its patterns from the catalog \<open>VERSION_PATTERNS\<close>
  of another package. A pattern of the catalog has an identifier and a function from the
  old version to a regular expression; of that regular expression the program uses
  \<open>regex.test(content)\<close> and \<open>content.replace(regex, template)\<close>, the two fields of
  \<open>regexp\<close>.
\<close>

record regexp =
  rx_test :: "string \<Rightarrow> bool"
  rx_replace :: "string \<Rightarrow> string \<Rightarrow> string"

record version_pattern =
  vp_id :: string
  vp_pattern :: "string \<Rightarrow> regexp"

text \<open>
  What the command-line implementation takes from outside the repository: the catalog,
  the search of the file system by glob patterns and ignore patterns (which may throw),
  the reading of the \<open>version\<close> field of the manifest of a directory, and the resolved
  paths of the manifest and of the ignore file.
\<close>

record cli_env =
  VERSION_PATTERNS :: "version_pattern list"
  glob :: "string list \<Rightarrow> string list \<Rightarrow> filesystem \<Rightarrow> js_error + path list"
  readPackageJSON :: "filesystem \<Rightarrow> path \<Rightarrow> js_error + string option"
  pkgPath :: path
  gitignorePath :: path

definition IGNORE_PATTERNS :: "string list" where
  "IGNORE_PATTERNS =
     [''**/node_modules/**'', ''**/.git/**'', ''**/dist/**'', ''**/build/**'', ''**/.next/**'',
      ''**/coverage/**'', ''**/.cache/**'', ''**/tmp/**'', ''**/.temp/**'',
      ''**/package-lock.json'', ''**/pnpm-lock.yaml'', ''**/yarn.lock'', ''**/bun.lock'']"

text \<open>The test \<open>/\.(json|jsonc|json5)$/\<close> of a file path.\<close>

definition is_json_path :: "path \<Rightarrow> bool" where
  "is_json_path filePath =
     (endsWith filePath ''.json'' \<or> endsWith filePath ''.jsonc'' \<or> endsWith filePath ''.json5'')"

text \<open>The loop over the patterns whose identifier starts with \<open>ts-\<close>.\<close>

fun tsPatterns_loop ::
  "string \<Rightarrow> string \<Rightarrow> string \<times> bool \<Rightarrow> version_pattern list \<Rightarrow> string \<times> bool" where
  "tsPatterns_loop oldVersion newVersion (updatedContent, changed) [] = (updatedContent, changed)"
| "tsPatterns_loop oldVersion newVersion (updatedContent, changed) (p # ps) =
     (if rx_test (vp_pattern p oldVersion) updatedContent
      then tsPatterns_loop oldVersion newVersion
             (rx_replace (vp_pattern p oldVersion) updatedContent (''$1'' @ newVersion @ ''$2''), True) ps
      else tsPatterns_loop oldVersion newVersion (updatedContent, changed) ps)"

text \<open>
  The first part of \<open>updateVersionInContent(filePath, content, oldVersion, newVersion)\<close>:
  the updated content and the flag \<open>changed\<close>.
\<close>

definition updated_content ::
  "cli_env \<Rightarrow> path \<Rightarrow> string \<Rightarrow> string \<Rightarrow> string \<Rightarrow> string \<times> bool" where
  "updated_content env filePath content oldVersion newVersion =
     (if is_json_path filePath then
        (case find (\<lambda>p. vp_id p = ''json-version'') (VERSION_PATTERNS env) of
           None \<Rightarrow> (content, False)
         | Some jsonPattern \<Rightarrow>
             if includes_str content (version_key_json @ '': '' @ [DQ] @ oldVersion @ [DQ])
             then (rx_replace (vp_pattern jsonPattern oldVersion) content
                     (version_key_json @ '': '' @ [DQ] @ newVersion @ [DQ]), True)
             else (content, False))
      else if endsWith filePath ''.ts'' then
        tsPatterns_loop oldVersion newVersion (content, False)
          (filter (\<lambda>p. startsWith (vp_id p) ''ts-'') (VERSION_PATTERNS env))
      else (content, False))"

text \<open>
  \<open>updateVersionInContent\<close> of the command-line implementation: where the content
  changed it writes the file, whatever the options of the run are, and returns the
  flag. \<open>writeFileSafe\<close> logs and throws again what \<open>writeFile\<close> throws.
\<close>

definition updateVersionInContent_cli ::
  "cli_env \<Rightarrow> filesystem \<Rightarrow> path \<Rightarrow> string \<Rightarrow> string \<Rightarrow> string
     \<Rightarrow> js_error + (filesystem \<times> bool)" where
  "updateVersionInContent_cli env fs filePath content oldVersion newVersion =
     (case updated_content env filePath content oldVersion newVersion of
        (updatedContent, changed) \<Rightarrow>
          if changed then
            (case writeFile fs filePath updatedContent of
               Inl e \<Rightarrow> Inl e
             | Inr fs' \<Rightarrow> Inr (fs', changed))
          else Inr (fs, changed))"

text \<open>
  The state of the loop of \<open>bumpVersions\<close>: the file system, the array \<open>modifiedFiles\<close> and
  the messages of level \<open>log\<close>, which are where the option \<open>dryRun\<close> shows.
\<close>

record batch_state =
  b_fs :: filesystem
  b_modifiedFiles :: "path list"
  b_log :: "string list"

text \<open>
  The callback that \<open>pMap\<close> runs for each matched file, one file after the other (the
  matched paths are distinct, and a task touches its own file only). The \<open>catch\<close> block
  of the callback logs the error and ends the task.
\<close>

fun bumpVersions_loop ::
  "cli_env \<Rightarrow> string \<Rightarrow> string \<Rightarrow> bool \<Rightarrow> batch_state \<Rightarrow> path list \<Rightarrow> batch_state" where
  "bumpVersions_loop env oldVersion newVersion dryRun st [] = st"
| "bumpVersions_loop env oldVersion newVersion dryRun st (file' # files) =
     (if \<not> pathExists (b_fs st) file'
      then bumpVersions_loop env oldVersion newVersion dryRun st files
      else
        (case readFile (b_fs st) file' of
           Inl err \<Rightarrow> bumpVersions_loop env oldVersion newVersion dryRun st files
         | Inr content \<Rightarrow>
             (case updateVersionInContent_cli env (b_fs st) file' content oldVersion newVersion of
                Inl err \<Rightarrow> bumpVersions_loop env oldVersion newVersion dryRun st files
              | Inr (fs', modified) \<Rightarrow>
                  if modified then
                    bumpVersions_loop env oldVersion newVersion dryRun
                      \<lparr> b_fs = fs', b_modifiedFiles = b_modifiedFiles st @ [file'],
                        b_log = (if \<not> dryRun then b_log st
                                 else b_log st @ [''[dry run] Would update version in: '' @ file']) \<rparr>
                      files
                  else
                    bumpVersions_loop env oldVersion newVersion dryRun (st\<lparr> b_fs := fs' \<rparr>) files)))"

text \<open>The patterns that \<open>bumpVersions\<close> takes from the ignore file of the project.\<close>

definition gitignore_pattern :: "string \<Rightarrow> string" where
  "gitignore_pattern pattern =
     (if startsWith pattern ''/'' then drop 1 pattern
      else if endsWith pattern ''/'' then ''**/'' @ pattern @ ''**''
      else ''**/'' @ pattern)"

definition gitignorePatterns :: "cli_env \<Rightarrow> filesystem \<Rightarrow> string list" where
  "gitignorePatterns env fs =
     (if pathExists fs (gitignorePath env) then
        (case readFile fs (gitignorePath env) of
           Inl err \<Rightarrow> []
         | Inr gitignoreContent \<Rightarrow>
             map gitignore_pattern
               (filter (\<lambda>line. line \<noteq> [] \<and> \<not> startsWith line ''#'')
                  (map trim (split_on (CHR 0x0A) gitignoreContent))))
      else [])"

text \<open>
  \<open>bumpVersions(oldVersion, newVersion, bumpFilter, options)\<close>: the state it leaves and
  either the error it throws or nothing. Only what the search throws reaches the outer
  \<open>catch\<close> block, which throws it again.
\<close>

definition bumpVersions ::
  "cli_env \<Rightarrow> filesystem \<Rightarrow> string \<Rightarrow> string \<Rightarrow> string list \<Rightarrow> bool
     \<Rightarrow> batch_state \<times> (js_error + unit)" where
  "bumpVersions env fs oldVersion newVersion bumpFilter dryRun =
     (case glob env (filePatterns_of bumpFilter)
             ([''**/node_modules/**'', ''**/.git/**''] @ IGNORE_PATTERNS @ gitignorePatterns env fs)
             fs of
        Inl error \<Rightarrow> (\<lparr> b_fs = fs, b_modifiedFiles = [], b_log = [] \<rparr>, Inl error)
      | Inr matchedFiles \<Rightarrow>
          (bumpVersions_loop env oldVersion newVersion dryRun
             \<lparr> b_fs = fs, b_modifiedFiles = [], b_log = [] \<rparr> matchedFiles,
           Inr ()))"

text \<open>
  \<open>bumpHandler(bumpMode, bumpDisable, bumpFilter, options)\<close> of the command-line
  implementation. Its check of the bump mode has no value of the type left to reject.
\<close>

definition bumpHandler ::
  "cli_env \<Rightarrow> filesystem \<Rightarrow> AutoBumpMode \<Rightarrow> bool \<Rightarrow> string list \<Rightarrow> bool
     \<Rightarrow> batch_state \<times> (js_error + unit)" where
  "bumpHandler env fs bumpMode bumpDisable bumpFilter dryRun =
     (let idle = \<lparr> b_fs = fs, b_modifiedFiles = [], b_log = [] \<rparr> in
      if bumpDisable then (idle, Inr ())
      else if \<not> pathExists fs (pkgPath env) then (idle, Inl (Error ''package.json not found''))
      else
        (case readPackageJSON env fs ''.'' of
           Inl e \<Rightarrow> (idle, Inl e)
         | Inr version \<Rightarrow>
             (case truthy version of
                None \<Rightarrow> (idle, Inl (Error ''No version field found in package.json''))
              | Some oldVersion \<Rightarrow>
                  if \<not> semver_valid oldVersion
                  then (idle, Inl (Error (''Invalid existing version in package.json: '' @ oldVersion)))
                  else
                    (case autoIncrementVersion oldVersion bumpMode of
                       Inl e \<Rightarrow> (idle, Inl e)
                     | Inr incremented \<Rightarrow>
                         if oldVersion \<noteq> incremented
                         then bumpVersions env fs oldVersion incremented bumpFilter dryRun
                         else (idle, Inr ())))))"

section \<open>The earlier command-line implementation\<close>

text \<open>
  The deprecated module has the same \<open>autoIncrementVersion\<close>, \<open>updateVersionInContent\<close>
  and \<open>bumpVersions\<close>, and a \<open>bumpHandler\<close> with a fourth bump mode, \<open>customVersion\<close>, and
  a version source file. Its \<open>getCurrentVersion\<close> reads a manifest through the manifest
  reader of the environment, a JSON file with the pattern of the manifest, and a
  TypeScript file with \<open>/version['"]\s*:\s*['"]([^'"]+)['"]/\<close>.
\<close>

datatype CliBumpMode = AutoMode AutoBumpMode | CustomVersion

definition quoted_key_at :: "string \<Rightarrow> re_match option" where
  "quoted_key_at s =
     (case lit ''version'' s of
        None \<Rightarrow> None
      | Some r0 \<Rightarrow>
          (case r0 of
             [] \<Rightarrow> None
           | q # r1 \<Rightarrow>
               if is_quote q then
                 (case skip_to is_colon r1 of
                    None \<Rightarrow> None
                  | Some r2 \<Rightarrow>
                      (case skip_to is_quote r2 of
                         None \<Rightarrow> None
                       | Some r3 \<Rightarrow>
                           (case value_at is_quote r3 of
                              None \<Rightarrow> None
                            | Some (v, rest) \<Rightarrow>
                                if v = [] then None else Some (mk_match s (Some v) None rest))))
               else None))"

text \<open>\<open>path.dirname\<close> of a path without a trailing separator.\<close>

definition dirname :: "path \<Rightarrow> path" where
  "dirname p =
     (if CHR ''/'' \<notin> set p then ''.''
      else if rev (drop 1 (dropWhile (\<lambda>c. c \<noteq> CHR ''/'') (rev p))) = [] then ''/''
      else rev (drop 1 (dropWhile (\<lambda>c. c \<noteq> CHR ''/'') (rev p))))"

definition getCurrentVersion_old :: "cli_env \<Rightarrow> filesystem \<Rightarrow> path \<Rightarrow> js_error + string" where
  "getCurrentVersion_old env fs filePath =
     (if \<not> pathExists fs filePath
      then Inl (Error (''Version source file not found: '' @ filePath))
      else if endsWith filePath ''package.json'' then
        (case readPackageJSON env fs (dirname filePath) of
           Inl e \<Rightarrow> Inl e
         | Inr version \<Rightarrow>
             (case truthy version of
                None \<Rightarrow> Inl (Error ''No version field found in package.json'')
              | Some v \<Rightarrow> Inr v))
      else
        (case readFile fs filePath of
           Inl e \<Rightarrow> Inl e
         | Inr content \<Rightarrow>
             (case (if is_json_path filePath then exec packageJson_at content
                    else if endsWith filePath ''.ts'' then exec quoted_key_at content
                    else None) of
                None \<Rightarrow> Inl (Error (''Could not find version in file: '' @ filePath))
              | Some (pre, m) \<Rightarrow>
                  (case group1 m of
                     None \<Rightarrow> Inl (Error (''Could not find version in file: '' @ filePath))
                   | Some v \<Rightarrow> Inr v))))"

text \<open>
  \<open>bumpHandler(bumpMode, bumpDisable, bumpFilter, options, customVersion)\<close> of the
  deprecated module, with the options \<open>dryRun\<close> and \<open>mainFile\<close> as arguments.
\<close>

definition bumpHandler_old ::
  "cli_env \<Rightarrow> filesystem \<Rightarrow> CliBumpMode \<Rightarrow> bool \<Rightarrow> string list \<Rightarrow> bool \<Rightarrow> path \<Rightarrow> string option
     \<Rightarrow> batch_state \<times> (js_error + unit)" where
  "bumpHandler_old env fs bumpMode bumpDisable bumpFilter dryRun mainFile customVersion =
     (let idle = \<lparr> b_fs = fs, b_modifiedFiles = [], b_log = [] \<rparr> in
      if bumpMode = CustomVersion \<and> truthy customVersion = None
      then (idle, Inl (Error ''customVersion is required when using customVersion mode''))
      else if bumpDisable then (idle, Inr ())
      else
        (case getCurrentVersion_old env fs mainFile of
           Inl e \<Rightarrow> (idle, Inl e)
         | Inr oldVersion \<Rightarrow>
             if \<not> semver_valid oldVersion
             then (idle, Inl (Error (''Invalid existing version in '' @ mainFile @ '': '' @ oldVersion)))
             else
               (case (case bumpMode of
                        CustomVersion \<Rightarrow>
                          (case truthy customVersion of
                             None \<Rightarrow> Inl (Error ''customVersion is unexpectedly empty'')
                           | Some c \<Rightarrow> Inr c)
                      | AutoMode mode \<Rightarrow> autoIncrementVersion oldVersion mode) of
                  Inl e \<Rightarrow> (idle, Inl e)
                | Inr incremented \<Rightarrow>
                    if oldVersion \<noteq> incremented
                    then bumpVersions env fs oldVersion incremented bumpFilter dryRun
                    else (idle, Inr ()))))"

text \<open>
  The translation of one filter in the words of the specification, for comparison with
  the loop: a filter with a wildcard character is used as it is, a filter with a path
  separator or a dot gets the recursive-directory prefix, a bare name is a stem that
  matches any extension.
\<close>

definition spec_glob_of_filter :: "string \<Rightarrow> string" where
  "spec_glob_of_filter f =
     (if CHR ''*'' \<in> set f \<or> CHR ''?'' \<in> set f then f
      else if CHR ''/'' \<in> set f \<or> BSL \<in> set f \<or> CHR ''.'' \<in> set f then ''**/'' @ f
      else ''**/'' @ f @ ''.*'')"

section \<open>Auxiliary notions for the proofs\<close>

text \<open>
  The verdicts of the pieces of a pattern that follow the key: whether a non-empty value
  and its closing quote follow, whether an opening quote and such a value follow, whether
  a separator and all of that follow.
\<close>

definition value_ok :: "(char \<Rightarrow> bool) \<Rightarrow> string \<Rightarrow> bool" where
  "value_ok isq s = (case value_at isq s of None \<Rightarrow> False | Some (v, r) \<Rightarrow> v \<noteq> [])"

definition quote_ok :: "(char \<Rightarrow> bool) \<Rightarrow> string \<Rightarrow> bool" where
  "quote_ok isq s = (case skip_to isq s of None \<Rightarrow> False | Some r \<Rightarrow> value_ok isq r)"

definition sep_ok :: "(char \<Rightarrow> bool) \<Rightarrow> (char \<Rightarrow> bool) \<Rightarrow> string \<Rightarrow> bool" where
  "sep_ok issep isq s = (case skip_to issep s of None \<Rightarrow> False | Some r \<Rightarrow> quote_ok isq r)"

text \<open>Two inputs agree when every piece after the key gives the same verdict on them.\<close>

definition agree :: "(char \<Rightarrow> bool) \<Rightarrow> (char \<Rightarrow> bool) \<Rightarrow> string \<Rightarrow> string \<Rightarrow> bool" where
  "agree issep isq y y' =
     ((value_at isq y \<noteq> None \<longleftrightarrow> value_at isq y' \<noteq> None) \<and>
      (value_ok isq y \<longleftrightarrow> value_ok isq y') \<and>
      (quote_ok isq y \<longleftrightarrow> quote_ok isq y') \<and>
      (sep_ok issep isq y \<longleftrightarrow> sep_ok issep isq y'))"

text \<open>The characters that occur in a string accepted by the constructor of \<open>SemVer\<close>.\<close>

definition semver_char :: "char \<Rightarrow> bool" where
  "semver_char c = (is_letterdashnumber c \<or> c = CHR ''.'' \<or> c = CHR ''+'' \<or> is_space c)"

text \<open>The text \<open>MAJOR.MINOR.PATCH\<close> of three numbers.\<close>

definition dotted :: "nat \<Rightarrow> nat \<Rightarrow> nat \<Rightarrow> string" where
  "dotted a b c = show_nat a @ ''.'' @ show_nat b @ ''.'' @ show_nat c"

text \<open>\<open>a\<close> is not below \<open>b\<close> under \<open>semver.compare\<close>.\<close>

definition not_below :: "string \<Rightarrow> string \<Rightarrow> bool" where
  "not_below a b = (semver_compare a b = Inr 0 \<or> semver_compare a b = Inr 1)"

text \<open>A file system for the examples.\<close>

definition fs_example :: filesystem where
  "fs_example =
     \<lparr> node_of = (\<lambda>p.
         if p = ''a.ts'' then File (''export const version = '' @ [DQ] @ ''1.0.0'' @ [DQ])
         else if p = ''b.ts'' then File (''export const version = '' @ [DQ] @ ''next'' @ [DQ])
         else if p = ''c.ts'' then File (''export const version = '' @ [DQ] @ ''1.0.0+build'' @ [DQ])
         else if p = ''README.md'' then File ''version 1.0.0''
         else if p = ''package.json'' then File ''{}''
         else if p = ''locked.ts'' then Unreadable (Error ''EACCES: permission denied'')
         else Absent),
       write_error = (\<lambda>p. None), written = [] \<rparr>"

text \<open>
  What one iteration of a batch loop does with its file: it leaves the file out, it
  fails with a message, or it has an updated content for the file.
\<close>

datatype outcome = Skipped | Failed string | Done string

text \<open>
  The outcome of the iteration of \<open>bumpVersion\<close> for the file \<open>f\<close> on the file system
  \<open>fs\<close>, read off the body of the loop.
\<close>

definition file_outcome :: "bool \<Rightarrow> string \<Rightarrow> filesystem \<Rightarrow> path \<Rightarrow> outcome" where
  "file_outcome dryRun newVersion fs f =
     (case readFile fs f of
        Inl e \<Rightarrow> Failed (error_message e)
      | Inr content \<Rightarrow>
          if detectFileType f content = Unknown then Skipped
          else
            (case extractVersion content (detectFileType f content) of
               None \<Rightarrow> Skipped
             | Some v \<Rightarrow>
                 (case updateVersionInContent content newVersion (detectFileType f content) of
                    Inl e \<Rightarrow> Failed (error_message e)
                  | Inr updatedContent \<Rightarrow>
                      if dryRun then Done updatedContent
                      else
                        (case write_error fs f of
                           Some e \<Rightarrow> Failed (error_message e)
                         | None \<Rightarrow> Done updatedContent))))"

text \<open>
  The entry that the iteration appends to \<open>updateResults\<close>, and the file system it
  leaves.
\<close>

definition entry_of :: "path \<Rightarrow> outcome \<Rightarrow> UpdateResult list" where
  "entry_of f out =
     (case out of
        Skipped \<Rightarrow> []
      | Failed msg \<Rightarrow> [\<lparr> u_file = f, u_success = False, u_error = Some msg \<rparr>]
      | Done updatedContent \<Rightarrow> [\<lparr> u_file = f, u_success = True, u_error = None \<rparr>])"

definition apply_outcome :: "bool \<Rightarrow> filesystem \<Rightarrow> path \<Rightarrow> outcome \<Rightarrow> filesystem" where
  "apply_outcome dryRun fs f out =
     (case out of
        Done updatedContent \<Rightarrow>
          if dryRun then fs
          else fs\<lparr> node_of := (node_of fs)(f := File updatedContent), written := written fs @ [f] \<rparr>
      | _ \<Rightarrow> fs)"

text \<open>
  The entries that the outcomes of the files give, and those of the failures among them.
\<close>

definition entries_of :: "bool \<Rightarrow> string \<Rightarrow> filesystem \<Rightarrow> path list \<Rightarrow> UpdateResult list" where
  "entries_of dryRun newVersion fs files =
     concat (map (\<lambda>f. entry_of f (file_outcome dryRun newVersion fs f)) files)"




text \<open>
  A version text that a substitution writes and finds again: it is not empty and holds
  none of the characters that the patterns, the replacement template and the callback
  look for.
\<close>

definition plain_version :: "string \<Rightarrow> bool" where
  "plain_version T =
     (T \<noteq> [] \<and> DQ \<notin> set T \<and> SQ \<notin> set T \<and> CHR ''$'' \<notin> set T \<and>
      CHR ''='' \<notin> set T \<and> CHR '','' \<notin> set T)"

text \<open>
  An instance of the pattern table for the examples. Its rule \<open>json-version\<close> matches
  the text \<open>"version": "OLD"\<close> that \<open>updateVersionInContent\<close> looks for in a JSON file, and
  replaces its first occurrence.
\<close>

fun replace_first :: "string \<Rightarrow> string \<Rightarrow> string \<Rightarrow> string" where
  "replace_first needle replacement [] = []"
| "replace_first needle replacement (c # cs) =
     (if startsWith (c # cs) needle then replacement @ drop (length needle) (c # cs)
      else c # replace_first needle replacement cs)"

definition json_version_example :: version_pattern where
  "json_version_example =
     \<lparr> vp_id = ''json-version'',
       vp_pattern = (\<lambda>oldVersion.
         \<lparr> rx_test = (\<lambda>content.
             includes_str content (version_key_json @ '': '' @ [DQ] @ oldVersion @ [DQ])),
           rx_replace = (\<lambda>content template.
             replace_first (version_key_json @ '': '' @ [DQ] @ oldVersion @ [DQ]) template content) \<rparr>) \<rparr>"

text \<open>
  A project for the examples: a manifest at version 1.2.3, two source files, one of them
  read-only, and a JSON file that cannot be read. The search of the environment finds
  both JSON files for the filter \<open>*.json\<close> and the manifest for no filter, and its manifest
  reader returns the version of the manifest.
\<close>

definition manifest_example :: string where
  "manifest_example = ''{ '' @ version_key_json @ '': '' @ [DQ] @ ''1.2.3'' @ [DQ] @ '' }''"

definition cli_env_example :: cli_env where
  "cli_env_example =
     \<lparr> VERSION_PATTERNS = [json_version_example],
       glob = (\<lambda>patterns ignore fs.
         if patterns = [''*.json''] then Inr [''locked.json'', ''package.json'']
         else if patterns = [''**/package.json''] then Inr [''package.json'']
         else Inr []),
       readPackageJSON = (\<lambda>fs dir.
         case readFile fs ''package.json'' of
           Inl e \<Rightarrow> Inl e
         | Inr content \<Rightarrow> Inr (extractVersion content PackageJson)),
       pkgPath = ''package.json'',
       gitignorePath = ''.gitignore'' \<rparr>"

definition fs_project :: filesystem where
  "fs_project =
     \<lparr> node_of = (\<lambda>p.
         if p = ''package.json'' then File manifest_example
         else if p = ''a.ts'' then File (''export const version = '' @ [DQ] @ ''1.2.3'' @ [DQ])
         else if p = ''readonly.ts'' then File (''export const version = '' @ [DQ] @ ''1.2.3'' @ [DQ])
         else if p = ''locked.json'' then Unreadable (Error ''EACCES: permission denied'')
         else Absent),
       write_error = (\<lambda>p. if p = ''readonly.ts'' then Some (Error ''EACCES: permission denied'') else None),
       written = [] \<rparr>"

text \<open>
  An environment of the library for the examples: the field \<open>version\<close> of a JSON text is
  what the manifest pattern captures there, and every glob accepts every path.
\<close>

definition js_env_example :: js_env where
  "js_env_example =
     \<lparr> json_field = (\<lambda>content field. Inr (extractVersion content PackageJson)),
       glob_test = (\<lambda>glob' filePath. True) \<rparr>"

definition options_example :: BumpOptions where
  "options_example = \<lparr> o_dryRun = False, o_verbose = False, o_customVersion = None \<rparr>"

text \<open>
  The manifest of the examples at an absolute path, as \<open>path.resolve\<close> gives it, with a
  manifest reader that reads the manifest of the directory it is given.
\<close>

definition fs_absolute :: filesystem where
  "fs_absolute =
     \<lparr> node_of = (\<lambda>p. if p = ''/project/package.json'' then File manifest_example else Absent),
       write_error = (\<lambda>p. None), written = [] \<rparr>"

definition cli_env_absolute :: cli_env where
  "cli_env_absolute =
     \<lparr> VERSION_PATTERNS = [json_version_example],
       glob = (\<lambda>patterns ignore fs. Inr [''/project/package.json'']),
       readPackageJSON = (\<lambda>fs dir.
         case readFile fs (dir @ ''/package.json'') of
           Inl e \<Rightarrow> Inl e
         | Inr content \<Rightarrow> Inr (extractVersion content PackageJson)),
       pkgPath = ''/project/package.json'',
       gitignorePath = ''/project/.gitignore'' \<rparr>"

text \<open>
  A project whose manifest has no space after the colon of its version field.
\<close>

definition manifest_compact :: string where
  "manifest_compact = ''{'' @ version_key_json @ '':'' @ [DQ] @ ''1.0.0'' @ [DQ] @ ''}''"

definition fs_compact :: filesystem where
  "fs_compact =
     \<lparr> node_of = (\<lambda>p. if p = ''package.json'' then File manifest_compact else Absent),
       write_error = (\<lambda>p. None), written = [] \<rparr>"

section \<open>Properties\<close>

subsection \<open>Matching: the leftmost match and its pieces\<close>

lemma startsWith_prefix: "startsWith s t = prefix t s"
  by (induction s t rule: startsWith.induct) auto

lemma lit_Some: "lit t s = Some r \<longleftrightarrow> s = t @ r"
  by (auto simp: lit_def startsWith_prefix prefix_def)

lemma exec_SomeD:
  "exec re s = Some (pre, m) \<Longrightarrow>
     \<exists>suf. s = pre @ suf \<and> re suf = Some m \<and> (\<forall>k<length pre. re (drop k s) = None)"
proof (induction s arbitrary: pre)
  case Nil
  then show ?case by (auto split: option.splits)
next
  case (Cons c cs)
  show ?case
  proof (cases "re (c # cs)")
    case (Some m')
    with Cons.prems show ?thesis by auto
  next
    case None
    with Cons.prems obtain pre' where e: "exec re cs = Some (pre', m)" and p: "pre = c # pre'"
      by (auto split: option.splits)
    from Cons.IH[OF e] obtain suf where s: "cs = pre' @ suf" "re suf = Some m"
      "\<forall>k<length pre'. re (drop k cs) = None" by blast
    have "\<forall>k<length pre. re (drop k (c # cs)) = None"
    proof (intro allI impI)
      fix k assume "k < length pre"
      then show "re (drop k (c # cs)) = None"
        using None s(3) p by (cases k) auto
    qed
    with s p show ?thesis by auto
  qed
qed

lemma exec_SomeI:
  "re suf = Some m \<Longrightarrow> (\<forall>k<length pre. re (drop k (pre @ suf)) = None) \<Longrightarrow>
     exec re (pre @ suf) = Some (pre, m)"
proof (induction pre)
  case Nil
  then show ?case by (cases suf) auto
next
  case (Cons c pre)
  from Cons.prems(2) have h0: "re ((c # pre) @ suf) = None" by force
  have "\<forall>k<length pre. re (drop k (pre @ suf)) = None"
  proof (intro allI impI)
    fix k assume "k < length pre"
    with Cons.prems(2) have "re (drop (Suc k) ((c # pre) @ suf)) = None" by (metis Suc_less_eq length_Cons)
    then show "re (drop k (pre @ suf)) = None" by simp
  qed
  with Cons.IH Cons.prems(1) have "exec re (pre @ suf) = Some (pre, m)" by blast
  with h0 show ?case by simp
qed

lemma skip_to_suffix: "skip_to cls s = Some r \<Longrightarrow> \<exists>w. s = w @ r"
proof (induction s)
  case Nil then show ?case by simp
next
  case (Cons c cs)
  then show ?case by (auto split: if_splits intro: exI[of _ "[c]"])
qed

lemma value_at_Some:
  "value_at isq s = Some (v, r) \<Longrightarrow> \<exists>q. s = v @ q # r \<and> isq q \<and> (\<forall>c\<in>set v. \<not> isq c)"
  by (induction s arbitrary: v) (auto split: if_splits option.splits)

lemma value_at_append:
  "\<forall>c\<in>set v. \<not> isq c \<Longrightarrow> isq q \<Longrightarrow> value_at isq (v @ q # r) = Some (v, r)"
  by (induction v) auto

lemma skip_to_mono:
  "(\<And>c. cls c \<Longrightarrow> cls' c) \<Longrightarrow> (\<And>c. is_space c \<Longrightarrow> \<not> cls' c) \<Longrightarrow>
   skip_to cls s = Some r \<Longrightarrow> skip_to cls' s = Some r"
  by (induction s) (auto split: if_splits)

lemma assignment_at_ok:
  "assignment_at key issep isq s \<noteq> None \<longleftrightarrow>
     (case lit key s of None \<Rightarrow> False | Some r \<Rightarrow> sep_ok issep isq r)"
  by (auto simp: assignment_at_def sep_ok_def quote_ok_def value_ok_def split: option.splits)

lemma value_at_agree:
  "agree issep isq y y' \<Longrightarrow> value_at isq (p @ y) \<noteq> None \<longleftrightarrow> value_at isq (p @ y') \<noteq> None"
  by (induction p) (auto simp: agree_def split: option.splits)

lemma value_ok_agree:
  "agree issep isq y y' \<Longrightarrow> value_ok isq (p @ y) \<longleftrightarrow> value_ok isq (p @ y')"
proof (cases p)
  case Nil
  then show "agree issep isq y y' \<Longrightarrow> ?thesis" by (simp add: agree_def)
next
  case (Cons c p')
  assume a: "agree issep isq y y'"
  from value_at_agree[OF a, of p'] Cons show ?thesis
    by (auto simp: value_ok_def split: option.splits)
qed

lemma quote_ok_agree:
  "agree issep isq y y' \<Longrightarrow> quote_ok isq (p @ y) \<longleftrightarrow> quote_ok isq (p @ y')"
proof (induction p)
  case Nil
  then show ?case by (simp add: agree_def)
next
  case (Cons c p)
  then show ?case using value_ok_agree[OF Cons.prems, of p]
    by (simp add: quote_ok_def)
qed

lemma sep_ok_agree:
  "agree issep isq y y' \<Longrightarrow> sep_ok issep isq (p @ y) \<longleftrightarrow> sep_ok issep isq (p @ y')"
proof (induction p)
  case Nil
  then show ?case by (simp add: agree_def)
next
  case (Cons c p)
  then show ?case using quote_ok_agree[OF Cons.prems, of p]
    by (simp add: sep_ok_def)
qed

lemma skip_to_has: "skip_to cls s = Some r \<Longrightarrow> \<exists>c\<in>set s. cls c"
  by (induction s) (auto split: if_splits)

lemma value_at_None: "value_at isq s = None \<longleftrightarrow> (\<forall>c\<in>set s. \<not> isq c)"
  by (induction s) (auto split: option.splits)

subsection \<open>typescript\<close>

lemma ts_agree:
  assumes "\<exists>c\<in>set w. is_quote c" "\<exists>c\<in>set w'. is_quote c"
  shows "agree is_eq_or_colon is_quote (''version'' @ w) (''version'' @ w')"
proof -
  have 1: "value_at is_quote w \<noteq> None" "value_at is_quote w' \<noteq> None"
    using assms by (auto simp: value_at_None)
  then show ?thesis
    by (auto simp: agree_def value_ok_def quote_ok_def sep_ok_def is_quote_def
        is_eq_or_colon_def is_space_def split: option.splits)
qed

lemma ts_lit:
  assumes "p \<noteq> []"
  shows "lit ''version'' (p @ ''version'' @ w) = Some r \<longleftrightarrow>
         (\<exists>p'. p = ''version'' @ p' \<and> r = p' @ ''version'' @ w)"
proof -
  have "prefix ''version'' (p @ ''version'' @ w) \<longleftrightarrow> prefix ''version'' p"
    using assms by (auto simp: prefix_append append_eq_Cons_conv Cons_eq_append_conv)
  then show ?thesis
    by (auto simp: lit_def startsWith_prefix prefix_def)
qed

lemma ts_alt1_invariant:
  assumes "p \<noteq> []" "\<exists>c\<in>set w. is_quote c" "\<exists>c\<in>set w'. is_quote c"
  shows "assignment_at ''version'' is_eq_or_colon is_quote (p @ ''version'' @ w) \<noteq> None \<longleftrightarrow>
         assignment_at ''version'' is_eq_or_colon is_quote (p @ ''version'' @ w') \<noteq> None"
proof -
  note a = ts_agree[OF assms(2,3)]
  show ?thesis
  proof (cases "\<exists>p'. p = ''version'' @ p'")
    case True
    then obtain p' where p: "p = ''version'' @ p'" by blast
    have "lit ''version'' (p @ ''version'' @ w) = Some (p' @ ''version'' @ w)"
         "lit ''version'' (p @ ''version'' @ w') = Some (p' @ ''version'' @ w')"
      using p by (simp_all add: lit_Some)
    then show ?thesis using sep_ok_agree[OF a, of p']
      by (simp only: assignment_at_ok option.case)
  next
    case False
    then have "lit ''version'' (p @ ''version'' @ w) = None"
         "lit ''version'' (p @ ''version'' @ w') = None"
      using ts_lit[OF assms(1)] by (metis not_Some_eq)+
    then show ?thesis by (simp only: assignment_at_ok option.case)
  qed
qed

lemma ts_alt2_alt1:
  "assignment_at key is_colon isq s = Some r \<Longrightarrow> assignment_at key is_eq_or_colon isq s = Some r"
proof -
  have m: "\<And>x r. skip_to is_colon x = Some r \<Longrightarrow> skip_to is_eq_or_colon x = Some r"
    by (rule skip_to_mono) (auto simp: is_colon_def is_eq_or_colon_def is_space_def)
  show "assignment_at key is_colon isq s = Some r \<Longrightarrow> assignment_at key is_eq_or_colon isq s = Some r"
    by (auto simp: assignment_at_def dest!: m split: option.splits if_splits)
qed

lemma typescript_at_alt1:
  "typescript_at s =
     (case assignment_at ''version'' is_eq_or_colon is_quote s of
        None \<Rightarrow> None | Some (v, rest) \<Rightarrow> Some (mk_match s (Some v) None rest))"
  using ts_alt2_alt1[of "''version''" is_quote s]
  by (auto simp: typescript_at_def split: option.splits)

lemma typescript_at_None:
  "typescript_at s = None \<longleftrightarrow> assignment_at ''version'' is_eq_or_colon is_quote s = None"
  by (auto simp: typescript_at_alt1 split: option.splits)

subsection \<open>package.json\<close>

lemma pkg_agree:
  "agree is_colon is_dquote (version_key_json @ w) (version_key_json @ w')"
  by (auto simp: agree_def value_ok_def quote_ok_def sep_ok_def is_dquote_def version_key_json_def
        is_colon_def is_space_def split: option.splits)

lemma pkg_lit:
  assumes "p \<noteq> []"
  shows "lit version_key_json (p @ version_key_json @ w) = Some r \<longleftrightarrow>
         (\<exists>p'. p = version_key_json @ p' \<and> r = p' @ version_key_json @ w) \<or>
         (p = DQ # ''version'' \<and> r = ''version'' @ [DQ] @ w)"
proof -
  have "prefix version_key_json (p @ version_key_json @ w) \<longleftrightarrow>
          prefix version_key_json p \<or> p = DQ # ''version''"
    using assms unfolding version_key_json_def
    by (auto simp: prefix_append append_eq_Cons_conv Cons_eq_append_conv)
  then show ?thesis
    by (auto simp: lit_def startsWith_prefix prefix_def version_key_json_def)
qed

lemma pkg_invariant:
  assumes "p \<noteq> []"
  shows "assignment_at version_key_json is_colon is_dquote (p @ version_key_json @ w) \<noteq> None \<longleftrightarrow>
         assignment_at version_key_json is_colon is_dquote (p @ version_key_json @ w') \<noteq> None"
proof -
  note a = pkg_agree[of w w']
  consider (full) p' where "p = version_key_json @ p'" | (part) "p = DQ # ''version''"
    | (none) "\<not> (\<exists>p'. p = version_key_json @ p')" "p \<noteq> DQ # ''version''" by blast
  then show ?thesis
  proof cases
    case full
    have "lit version_key_json (p @ version_key_json @ w) = Some (p' @ version_key_json @ w)"
         "lit version_key_json (p @ version_key_json @ w') = Some (p' @ version_key_json @ w')"
      using full by (simp_all add: lit_Some)
    then show ?thesis using sep_ok_agree[OF a, of p']
      by (simp only: assignment_at_ok option.case)
  next
    case part
    have "lit version_key_json (p @ version_key_json @ w) = Some (''version'' @ [DQ] @ w)"
         "lit version_key_json (p @ version_key_json @ w') = Some (''version'' @ [DQ] @ w')"
      using part by (simp_all add: lit_Some version_key_json_def)
    moreover have "\<not> sep_ok is_colon is_dquote (''version'' @ [DQ] @ x)" for x
      by (simp add: sep_ok_def is_colon_def is_space_def)
    ultimately show ?thesis
      by (simp only: assignment_at_ok option.case)
  next
    case none
    then have "lit version_key_json (p @ version_key_json @ w) = None"
         "lit version_key_json (p @ version_key_json @ w') = None"
      using pkg_lit[OF assms] by (metis not_Some_eq)+
    then show ?thesis by (simp only: assignment_at_ok option.case)
  qed
qed

subsection \<open>Round trip\<close>

lemma GetSubstitution_plain:
  "CHR ''$'' \<notin> set t \<Longrightarrow> GetSubstitution mt pre post cap t = t"
  by (induction t) auto

lemma mk_match_sel [simp]:
  "group1 (mk_match s g1 g2 r) = g1" "group2 (mk_match s g1 g2 r) = g2"
  "after (mk_match s g1 g2 r) = r"
  by (simp_all add: mk_match_def)

lemma matched_mk_match: "matched (mk_match (a @ rest) g1 g2 rest) = a"
  by (simp add: mk_match_def)

lemma packageJson_at_SomeD:
  "packageJson_at s = Some m \<Longrightarrow>
     \<exists>w v. s = version_key_json @ w \<and> m = mk_match s (Some v) None (after m)"
  by (auto simp: packageJson_at_def assignment_at_def lit_Some split: option.splits if_splits)

lemma packageJson_at_None:
  "packageJson_at s = None \<longleftrightarrow> assignment_at version_key_json is_colon is_dquote s = None"
  by (auto simp: packageJson_at_def split: option.splits)

lemma assignment_atI:
  "lit key s = Some r1 \<Longrightarrow> skip_to issep r1 = Some r2 \<Longrightarrow> skip_to isq r2 = Some r3 \<Longrightarrow>
   value_at isq r3 = Some (v, rest) \<Longrightarrow> v \<noteq> [] \<Longrightarrow>
   assignment_at key issep isq s = Some (v, rest)"
  by (simp add: assignment_at_def)

lemma packageJson_at_canonical:
  assumes "new \<noteq> []" "DQ \<notin> set new"
  shows "packageJson_at (version_key_json @ '': '' @ [DQ] @ new @ [DQ] @ rest) =
           Some (mk_match (version_key_json @ '': '' @ [DQ] @ new @ [DQ] @ rest) (Some new) None rest)"
proof -
  have l: "lit version_key_json (version_key_json @ '': '' @ [DQ] @ new @ [DQ] @ rest)
             = Some ('': '' @ [DQ] @ new @ [DQ] @ rest)"
    by (simp only: lit_Some)
  have s1: "skip_to is_colon ('': '' @ [DQ] @ new @ [DQ] @ rest) = Some ('' '' @ [DQ] @ new @ [DQ] @ rest)"
    by (simp add: is_colon_def)
  have s2: "skip_to is_dquote ('' '' @ [DQ] @ new @ [DQ] @ rest) = Some (new @ [DQ] @ rest)"
    by (simp add: is_dquote_def is_space_def)
  have v: "value_at is_dquote (new @ [DQ] @ rest) = Some (new, rest)"
    using assms value_at_append[of new is_dquote DQ rest] by (auto simp: is_dquote_def)
  from assignment_atI[OF l s1 s2 v assms(1)] show ?thesis
    by (simp add: packageJson_at_def)
qed

lemma exec_packageJson_updated:
  assumes e: "exec packageJson_at content = Some (pre, m)"
    and n: "new \<noteq> []" "DQ \<notin> set new"
  shows "exec packageJson_at (pre @ version_key_json @ '': '' @ [DQ] @ new @ [DQ] @ after m) =
           Some (pre, mk_match (version_key_json @ '': '' @ [DQ] @ new @ [DQ] @ after m)
                        (Some new) None (after m))"
proof -
  from exec_SomeD[OF e] obtain suf where s: "content = pre @ suf" "packageJson_at suf = Some m"
      and none: "\<forall>k<length pre. packageJson_at (drop k content) = None" by blast
  from packageJson_at_SomeD[OF s(2)] obtain w where w: "suf = version_key_json @ w" by blast
  let ?w' = "'': '' @ [DQ] @ new @ [DQ] @ after m"
  have "\<forall>k<length pre. packageJson_at (drop k (pre @ version_key_json @ ?w')) = None"
  proof (intro allI impI)
    fix k assume k: "k < length pre"
    then have ne: "drop k pre \<noteq> []" by simp
    from none k have "packageJson_at (drop k pre @ version_key_json @ w) = None"
      using s(1) w by simp
    then have "assignment_at version_key_json is_colon is_dquote (drop k pre @ version_key_json @ ?w') = None"
      using pkg_invariant[OF ne, of w ?w'] unfolding packageJson_at_None by blast
    then show "packageJson_at (drop k (pre @ version_key_json @ ?w')) = None"
      using k by (simp add: packageJson_at_None)
  qed
  with packageJson_at_canonical[OF n, of "after m"] show ?thesis
    by (intro exec_SomeI) 
qed

lemma update_packageJson:
  assumes e: "exec packageJson_at content = Some (pre, m)" and d: "CHR ''$'' \<notin> set new"
  shows "updateVersionInContent content new PackageJson =
           Inr (pre @ version_key_json @ '': '' @ [DQ] @ new @ [DQ] @ after m)"
proof -
  have "CHR ''$'' \<notin> set (version_key_json @ '': '' @ [DQ] @ new @ [DQ])"
    using d by (simp add: version_key_json_def)
  from GetSubstitution_plain[OF this] show ?thesis
    using e by (simp add: updateVersionInContent_def replace_string_def)
qed

lemma roundtrip_packageJson:
  assumes "extractVersion content PackageJson \<noteq> None"
    and "new \<noteq> []" "DQ \<notin> set new" "CHR ''$'' \<notin> set new"
  shows "\<exists>updated. updateVersionInContent content new PackageJson = Inr updated \<and>
           extractVersion updated PackageJson = Some new"
proof -
  from assms(1) obtain pre m where e: "exec packageJson_at content = Some (pre, m)"
    by (auto simp: extractVersion_def split: option.splits)
  from exec_packageJson_updated[OF e assms(2,3)] update_packageJson[OF e assms(4)]
  show ?thesis by (simp add: extractVersion_def)
qed

lemma typescript_at_SomeD:
  "typescript_at s = Some m \<Longrightarrow>
     \<exists>w. s = ''version'' @ w \<and> (\<exists>c\<in>set w. is_quote c)"
proof -
  assume "typescript_at s = Some m"
  then obtain v rest where a: "assignment_at ''version'' is_eq_or_colon is_quote s = Some (v, rest)"
    by (auto simp: typescript_at_alt1 split: option.splits)
  then obtain r1 r2 r3 where r: "s = ''version'' @ r1" "skip_to is_eq_or_colon r1 = Some r2"
     "skip_to is_quote r2 = Some r3"
    by (auto simp: assignment_at_def lit_Some split: option.splits)
  from skip_to_suffix[OF r(2)] obtain x where "r1 = x @ r2" by blast
  moreover from skip_to_has[OF r(3)] have "\<exists>c\<in>set r2. is_quote c" .
  ultimately have "\<exists>c\<in>set r1. is_quote c" by auto
  with r(1) show ?thesis by blast
qed

lemma typescript_replacement_shape:
  "\<exists>op d comma. typescript_replacement new mt = ''version'' @ op # '' '' @ d # new @ d # comma
     \<and> is_eq_or_colon op \<and> is_quote d \<and> (comma = [] \<or> comma = '','')"
  by (auto simp: typescript_replacement_def Let_def is_eq_or_colon_def is_quote_def)

lemma typescript_at_canonical:
  assumes "new \<noteq> []" "\<forall>c\<in>set new. \<not> is_quote c" "is_eq_or_colon op" "is_quote d"
  shows "typescript_at (''version'' @ op # '' '' @ d # new @ d # rest) =
           Some (mk_match (''version'' @ op # '' '' @ d # new @ d # rest) (Some new) None rest)"
proof -
  have l: "lit ''version'' (''version'' @ op # '' '' @ d # new @ d # rest)
             = Some (op # '' '' @ d # new @ d # rest)"
    by (simp only: lit_Some)
  have s1: "skip_to is_eq_or_colon (op # '' '' @ d # new @ d # rest) = Some ('' '' @ d # new @ d # rest)"
    using assms(3) by simp
  have s2: "skip_to is_quote ('' '' @ d # new @ d # rest) = Some (new @ d # rest)"
    using assms(4) by (simp add: is_quote_def is_space_def)
  have v: "value_at is_quote (new @ d # rest) = Some (new, rest)"
    using assms by (intro value_at_append) auto
  from assignment_atI[OF l s1 s2 v assms(1)] show ?thesis
    by (simp add: typescript_at_alt1)
qed

lemma exec_typescript_updated:
  assumes e: "exec typescript_at content = Some (pre, m)"
    and n: "new \<noteq> []" "\<forall>c\<in>set new. \<not> is_quote c" "is_eq_or_colon op" "is_quote d"
  shows "exec typescript_at (pre @ ''version'' @ op # '' '' @ d # new @ d # rest) =
           Some (pre, mk_match (''version'' @ op # '' '' @ d # new @ d # rest) (Some new) None rest)"
proof -
  from exec_SomeD[OF e] obtain suf where s: "content = pre @ suf" "typescript_at suf = Some m"
      and none: "\<forall>k<length pre. typescript_at (drop k content) = None" by blast
  from typescript_at_SomeD[OF s(2)] obtain w where w: "suf = ''version'' @ w" "\<exists>c\<in>set w. is_quote c"
    by blast
  let ?w' = "op # '' '' @ d # new @ d # rest"
  have q: "\<exists>c\<in>set ?w'. is_quote c" using n(4) by auto
  have "\<forall>k<length pre. typescript_at (drop k (pre @ ''version'' @ ?w')) = None"
  proof (intro allI impI)
    fix k assume k: "k < length pre"
    then have ne: "drop k pre \<noteq> []" by simp
    from none k have "typescript_at (drop k pre @ ''version'' @ w) = None"
      using s(1) w by simp
    then have "assignment_at ''version'' is_eq_or_colon is_quote (drop k pre @ ''version'' @ ?w') = None"
      using ts_alt1_invariant[OF ne w(2) q] unfolding typescript_at_None by blast
    then show "typescript_at (drop k (pre @ ''version'' @ ?w')) = None"
      using k by (simp add: typescript_at_None)
  qed
  with typescript_at_canonical[OF n, of rest] show ?thesis
    by (intro exec_SomeI)
qed

lemma roundtrip_typescript:
  assumes "extractVersion content Typescript \<noteq> None"
    and "new \<noteq> []" "DQ \<notin> set new" "SQ \<notin> set new"
  shows "\<exists>updated. updateVersionInContent content new Typescript = Inr updated \<and>
           extractVersion updated Typescript = Some new"
proof -
  from assms(1) obtain pre m where e: "exec typescript_at content = Some (pre, m)"
    by (auto simp: extractVersion_def split: option.splits)
  obtain op d comma where sh: "typescript_replacement new (matched m) = ''version'' @ op # '' '' @ d # new @ d # comma"
    "is_eq_or_colon op" "is_quote d"
    using typescript_replacement_shape[of new "matched m"] by blast
  have nq: "\<forall>c\<in>set new. \<not> is_quote c" using assms(3,4) by (auto simp: is_quote_def)
  have u: "updateVersionInContent content new Typescript =
             Inr (pre @ ''version'' @ op # '' '' @ d # new @ d # (comma @ after m))"
    using e sh(1) by (simp add: updateVersionInContent_def replace_fn_def)
  from exec_typescript_updated[OF e assms(2) nq sh(2,3), of "comma @ after m"] u
  show ?thesis by (simp add: extractVersion_def)
qed

subsection \<open>The characters of a valid version\<close>

lemma split_on_ne: "split_on d s \<noteq> []"
  by (induction s) (simp_all split: list.splits)

lemma split_on_member:
  "c \<in> set s \<Longrightarrow> c = d \<or> (\<exists>x\<in>set (split_on d s). c \<in> set x)"
proof (induction s)
  case Nil
  then show ?case by simp
next
  case (Cons a s)
  show ?case
  proof (cases "a = d")
    case True
    with Cons show ?thesis by auto
  next
    case False
    obtain x xs where sp: "split_on d s = x # xs"
      using split_on_ne[of d s] by (cases "split_on d s") auto
    with False have e: "split_on d (a # s) = (a # x) # xs" by simp
    show ?thesis
    proof (cases "c = a")
      case True
      with e show ?thesis by simp
    next
      case False
      with Cons.prems have "c \<in> set s" by simp
      from Cons.IH[OF this] show ?thesis unfolding e sp by auto
    qed
  qed
qed

lemma split_on_chars:
  "\<forall>x\<in>set (split_on d s). \<forall>c\<in>set x. P c \<Longrightarrow> P d \<Longrightarrow> \<forall>c\<in>set s. P c"
  using split_on_member[of _ s d] by blast

lemma trim_chars: "c \<in> set s \<Longrightarrow> c \<in> set (trim s) \<or> is_space c"
proof -
  assume c: "c \<in> set s"
  let ?x = "dropWhile is_space s"
  have 1: "set s = set (takeWhile is_space s) \<union> set ?x"
    by (metis set_append takeWhile_dropWhile_id)
  have 2: "set ?x = set (takeWhile is_space (rev ?x)) \<union> set (dropWhile is_space (rev ?x))"
    by (metis set_append set_rev takeWhile_dropWhile_id)
  have 3: "set (trim s) = set (dropWhile is_space (rev ?x))" by (simp add: trim_def)
  have 4: "\<And>y z. z \<in> set (takeWhile is_space y) \<Longrightarrow> is_space z" by (rule set_takeWhileD[THEN conjunct2])
  from c 1 2 3 4 show ?thesis by blast
qed

lemma strip_v_chars: "c \<in> set s \<Longrightarrow> c \<in> set (strip_v s) \<or> c = CHR ''v''"
  by (cases s) (auto simp: strip_v_def split: if_splits)

lemma numeric_chars: "is_numeric_identifier x \<Longrightarrow> c \<in> set x \<Longrightarrow> semver_char c"
  by (simp add: is_numeric_identifier_def list_all_iff semver_char_def is_letterdashnumber_def)

lemma prerelease_chars: "is_prerelease_identifier x \<Longrightarrow> c \<in> set x \<Longrightarrow> semver_char c"
  unfolding is_prerelease_identifier_def
proof (elim disjE conjE)
  assume "is_numeric_identifier x" "c \<in> set x"
  then show ?thesis by (rule numeric_chars)
next
  assume "list_all is_letterdashnumber x" "c \<in> set x"
  then show ?thesis by (simp add: list_all_iff semver_char_def)
qed

lemma build_chars: "is_build_identifier x \<Longrightarrow> c \<in> set x \<Longrightarrow> semver_char c"
  by (simp add: is_build_identifier_def list_all_iff semver_char_def)

lemma dot_char: "semver_char (CHR ''.'')" by (simp add: semver_char_def)

lemma ids_chars:
  assumes "list_all Q (split_on (CHR ''.'') s)" "\<And>x c. Q x \<Longrightarrow> c \<in> set x \<Longrightarrow> semver_char c"
  shows "\<forall>c\<in>set s. semver_char c"
proof (rule split_on_chars[where d = "CHR ''.''"])
  show "\<forall>x\<in>set (split_on (CHR ''.'') s). \<forall>c\<in>set x. semver_char c"
    using assms unfolding list_all_iff by blast
  show "semver_char (CHR ''.'')" by (rule dot_char)
qed

lemma dropWhile_Cons_hd: "dropWhile Q s = c # r \<Longrightarrow> \<not> Q c"
  using hd_dropWhile[of Q s] by force

lemma set_take_drop: "set s = set (takeWhile Q s) \<union> set (dropWhile Q s)"
  by (metis set_append takeWhile_dropWhile_id)

lemma matches_FULL_chars:
  assumes m: "matches_FULL t"
  shows "\<forall>c\<in>set (strip_v t). semver_char c"
proof -
  let ?u = "strip_v t"
  let ?R = "\<lambda>c. c \<noteq> CHR ''-'' \<and> c \<noteq> CHR ''+''"
  let ?B = "\<lambda>c. c \<noteq> CHR ''+''"
  from m have m1: "list_all is_numeric_identifier (split_on (CHR ''.'') (takeWhile ?R ?u))"
    and m2: "list_all is_prerelease_identifier (prerelease_ids t)"
    and m3: "list_all is_build_identifier (build_ids t)"
    by (simp_all add: matches_FULL_def main_numbers_def main_part_def)
  have main: "\<forall>c\<in>set (takeWhile ?R ?u). semver_char c"
    using m1 numeric_chars by (rule ids_chars)
  have rest: "\<forall>c\<in>set (dropWhile ?R ?u). semver_char c"
  proof (cases "dropWhile ?R ?u")
    case Nil
    show ?thesis unfolding Nil by simp
  next
    case (Cons c r)
    from dropWhile_Cons_hd[OF Cons] have c: "c = CHR ''-'' \<or> c = CHR ''+''" by blast
    have sc: "semver_char c" using c by (auto simp: semver_char_def is_letterdashnumber_def)
    have r: "\<forall>c\<in>set r. semver_char c"
    proof (cases "c = CHR ''+''")
      case True
      then have "build_ids t = split_on (CHR ''.'') r"
        using Cons by (simp add: build_ids_def build_part_def)
      with m3 have "list_all is_build_identifier (split_on (CHR ''.'') r)" by simp
      then show ?thesis using build_chars by (rule ids_chars)
    next
      case False
      with c have cm: "c = CHR ''-''" by simp
      then have "prerelease_ids t = split_on (CHR ''.'') (takeWhile ?B r)"
        using Cons by (simp add: prerelease_ids_def prerelease_part_def)
      with m2 have "list_all is_prerelease_identifier (split_on (CHR ''.'') (takeWhile ?B r))" by simp
      then have p: "\<forall>c\<in>set (takeWhile ?B r). semver_char c"
        using prerelease_chars by (rule ids_chars)
      have b: "\<forall>c\<in>set (dropWhile ?B r). semver_char c"
      proof (cases "dropWhile ?B r")
        case Nil
        show ?thesis unfolding Nil by simp
      next
        case (Cons c' b)
        from dropWhile_Cons_hd[OF Cons] have c': "c' = CHR ''+''" by blast
        have "build_ids t = split_on (CHR ''.'') b"
          using Cons \<open>dropWhile ?R ?u = c # r\<close> cm by (simp add: build_ids_def build_part_def)
        with m3 have "list_all is_build_identifier (split_on (CHR ''.'') b)" by simp
        then have "\<forall>c\<in>set b. semver_char c" using build_chars by (rule ids_chars)
        then show ?thesis unfolding Cons c' by (simp add: semver_char_def)
      qed
      show ?thesis using p b set_take_drop[of r ?B] by blast
    qed
    show ?thesis unfolding Cons using sc r by simp
  qed
  show ?thesis using main rest set_take_drop[of ?u ?R] by blast
qed

lemma new_SemVer_not_FULL:
  "\<not> matches_FULL (trim s) \<Longrightarrow> \<exists>e. new_SemVer s = Inl e"
  unfolding new_SemVer_def Let_def by simp

lemma semver_valid_matches: "semver_valid s \<Longrightarrow> matches_FULL (trim s)"
  using new_SemVer_not_FULL[of s] by (cases "matches_FULL (trim s)") (auto simp: semver_valid_def parse_semver_def)

lemma semver_valid_chars:
  assumes "semver_valid s"
  shows "s \<noteq> [] \<and> (\<forall>c\<in>set s. semver_char c)"
proof
  from semver_valid_matches[OF assms] have m: "matches_FULL (trim s)" .
  show "s \<noteq> []"
  proof
    assume "s = []"
    with m show False by (simp add: trim_def matches_FULL_def main_numbers_def strip_v_def main_part_def)
  qed
  have v: "semver_char (CHR ''v'')" by (simp add: semver_char_def is_letterdashnumber_def is_letter_def)
  show "\<forall>c\<in>set s. semver_char c"
  proof
    fix c assume "c \<in> set s"
    then consider "is_space c" | "c \<in> set (trim s)" using trim_chars by blast
    then show "semver_char c"
    proof cases
      case 1 then show ?thesis by (simp add: semver_char_def)
    next
      case 2
      then consider "c = CHR ''v''" | "c \<in> set (strip_v (trim s))" using strip_v_chars by blast
      then show ?thesis using v matches_FULL_chars[OF m] by cases auto
    qed
  qed
qed

lemma semver_char_plain:
  assumes "semver_char c"
  shows "c \<noteq> DQ \<and> c \<noteq> SQ \<and> c \<noteq> CHR ''$'' \<and> c \<noteq> CHR ''='' \<and> c \<noteq> CHR '',''"
proof -
  have "\<not> semver_char DQ" "\<not> semver_char SQ" "\<not> semver_char (CHR ''$'')"
       "\<not> semver_char (CHR ''='')" "\<not> semver_char (CHR '','')"
    by (simp_all add: semver_char_def is_letterdashnumber_def is_letter_def is_digit_def is_space_def)
  with assms show ?thesis by blast
qed

subsection \<open>Extraction after substitution\<close>

lemma valid_version_plain:
  assumes "isValidSemver v"
  shows "v \<noteq> []" "DQ \<notin> set v" "SQ \<notin> set v" "CHR ''$'' \<notin> set v"
    "CHR ''='' \<notin> set v" "CHR '','' \<notin> set v"
  using semver_valid_chars[of v] semver_char_plain assms
  by (auto simp: isValidSemver_def)

lemma extract_update_valid:
  assumes "extractVersion content fileType \<noteq> None" and "isValidSemver newVersion"
  shows "\<exists>updated. updateVersionInContent content newVersion fileType = Inr updated \<and>
           extractVersion updated fileType = Some newVersion"
proof (cases fileType)
  case PackageJson
  with assms(1) valid_version_plain(1,2,4)[OF assms(2)] show ?thesis
    using roundtrip_packageJson[of content newVersion] by simp
next
  case Typescript
  with assms(1) valid_version_plain(1,2,3)[OF assms(2)] show ?thesis
    using roundtrip_typescript[of content newVersion] by simp
next
  case Unknown
  with assms(1) show ?thesis by (simp add: extractVersion_def)
qed

text \<open>
  Claim C7. For a content in which \<open>extractVersion\<close> finds a version declaration of its
  file type, and a new version that is valid semver (so free of quotes and of \<open>$\<close>), the
  substitution succeeds and extraction from its result returns exactly the new version.
\<close>

theorem extract_after_update:
  "extractVersion content fileType \<noteq> None \<Longrightarrow> isValidSemver newVersion \<Longrightarrow>
     \<exists>updated. updateVersionInContent content newVersion fileType = Inr updated \<and>
       extractVersion updated fileType = Some newVersion"
  by (rule extract_update_valid)

theorem extract_after_update_witness:
  "extractVersion (''export const version = '' @ [SQ] @ ''1.2.3'' @ [SQ] @ '';'') Typescript \<noteq> None \<and>
   isValidSemver ''1.2.4'' \<and>
   updateVersionInContent (''export const version = '' @ [SQ] @ ''1.2.3'' @ [SQ] @ '';'') ''1.2.4'' Typescript
     = Inr (''export const version= '' @ [SQ] @ ''1.2.4'' @ [SQ] @ '';'') \<and>
   extractVersion (''export const version= '' @ [SQ] @ ''1.2.4'' @ [SQ] @ '';'') Typescript = Some ''1.2.4''"
proof -
  let ?c = "''export const version = '' @ [SQ] @ ''1.2.3'' @ [SQ] @ '';''"
  have e: "extractVersion ?c Typescript \<noteq> None" by code_simp
  have v: "isValidSemver ''1.2.4''" by code_simp
  have u: "updateVersionInContent ?c ''1.2.4'' Typescript
     = Inr (''export const version= '' @ [SQ] @ ''1.2.4'' @ [SQ] @ '';'')" by code_simp
  from extract_after_update[OF e v] u e v show ?thesis by auto
qed

subsection \<open>Which declarations the substitution rewrites\<close>

lemma assignment_at_split:
  "assignment_at key issep isq s = Some (v, rest) \<Longrightarrow> \<exists>x. s = x @ rest"
proof -
  assume "assignment_at key issep isq s = Some (v, rest)"
  then obtain r1 r2 r3 where r: "s = key @ r1" "skip_to issep r1 = Some r2"
     "skip_to isq r2 = Some r3" "value_at isq r3 = Some (v, rest)"
    by (auto simp: assignment_at_def lit_Some split: option.splits if_splits)
  from skip_to_suffix[OF r(2)] obtain a where a: "r1 = a @ r2" by blast
  from skip_to_suffix[OF r(3)] obtain b where b: "r2 = b @ r3" by blast
  from value_at_Some[OF r(4)] obtain q where q: "r3 = v @ q # rest" by blast
  have "s = (key @ a @ b @ v @ [q]) @ rest" using r(1) a b q by simp
  then show ?thesis by blast
qed

lemma mk_match_split: "s = x @ rest \<Longrightarrow> matched (mk_match s g1 g2 rest) @ rest = s"
  by (simp add: mk_match_def)

lemma typescript_at_split: "typescript_at s = Some m \<Longrightarrow> s = matched m @ after m"
proof -
  assume t: "typescript_at s = Some m"
  then obtain v rest where a: "assignment_at ''version'' is_eq_or_colon is_quote s = Some (v, rest)"
    and m: "m = mk_match s (Some v) None rest"
    by (auto simp: typescript_at_alt1 split: option.splits)
  from assignment_at_split[OF a] obtain x where "s = x @ rest" by blast
  from mk_match_split[OF this] m show ?thesis by simp
qed

lemma packageJson_at_split: "packageJson_at s = Some m \<Longrightarrow> s = matched m @ after m"
proof -
  assume t: "packageJson_at s = Some m"
  then obtain v rest where a: "assignment_at version_key_json is_colon is_dquote s = Some (v, rest)"
    and m: "m = mk_match s (Some v) None rest"
    by (auto simp: packageJson_at_def split: option.splits)
  from assignment_at_split[OF a] obtain x where "s = x @ rest" by blast
  from mk_match_split[OF this] m show ?thesis by simp
qed

lemma skip_to_shape:
  "skip_to cls s = Some r \<Longrightarrow> \<exists>ws c. s = ws @ c # r \<and> cls c \<and> list_all is_space ws"
proof (induction s)
  case Nil
  then show ?case by simp
next
  case (Cons a s)
  show ?case
  proof (cases "cls a")
    case True
    with Cons.prems have "a # s = [] @ a # r \<and> cls a \<and> list_all is_space []" by simp
    then show ?thesis by blast
  next
    case False
    with Cons.prems have sp: "is_space a" and "skip_to cls s = Some r"
      by (simp_all split: if_splits)
    from Cons.IH[OF this(2)] obtain ws c where "s = ws @ c # r" "cls c" "list_all is_space ws"
      by blast
    with sp have "a # s = (a # ws) @ c # r \<and> cls c \<and> list_all is_space (a # ws)" by simp
    then show ?thesis by blast
  qed
qed

lemma assignment_at_shape:
  assumes "assignment_at key issep isq s = Some (v, rest)"
  shows "\<exists>ws1 sep ws2 q1 q2.
           s = key @ ws1 @ [sep] @ ws2 @ [q1] @ v @ [q2] @ rest \<and>
           list_all is_space ws1 \<and> issep sep \<and> list_all is_space ws2 \<and> isq q1 \<and> isq q2 \<and>
           v \<noteq> [] \<and> (\<forall>c\<in>set v. \<not> isq c)"
proof -
  from assms obtain r1 r2 r3 where r: "s = key @ r1" "skip_to issep r1 = Some r2"
     "skip_to isq r2 = Some r3" "value_at isq r3 = Some (v, rest)" and ne: "v \<noteq> []"
    by (auto simp: assignment_at_def lit_Some split: option.splits if_splits)
  from skip_to_shape[OF r(2)] obtain ws1 sep where a: "r1 = ws1 @ sep # r2" "issep sep"
    "list_all is_space ws1" by blast
  from skip_to_shape[OF r(3)] obtain ws2 q1 where b: "r2 = ws2 @ q1 # r3" "isq q1"
    "list_all is_space ws2" by blast
  from value_at_Some[OF r(4)] obtain q2 where q: "r3 = v @ q2 # rest" "isq q2"
    "\<forall>c\<in>set v. \<not> isq c" by blast
  have "s = key @ ws1 @ [sep] @ ws2 @ [q1] @ v @ [q2] @ rest" using r(1) a(1) b(1) q(1) by simp
  with a(2,3) b(2,3) q(2,3) ne show ?thesis by blast
qed

lemma typescript_at_shape:
  assumes "typescript_at s = Some m"
  shows "\<exists>ws1 sep ws2 q1 old q2.
           matched m = ''version'' @ ws1 @ [sep] @ ws2 @ [q1] @ old @ [q2] \<and>
           s = matched m @ after m \<and> group1 m = Some old \<and>
           list_all is_space ws1 \<and> is_eq_or_colon sep \<and> list_all is_space ws2 \<and>
           is_quote q1 \<and> is_quote q2 \<and> old \<noteq> [] \<and> (\<forall>c\<in>set old. \<not> is_quote c)"
proof -
  from assms obtain v rest where a: "assignment_at ''version'' is_eq_or_colon is_quote s = Some (v, rest)"
    and m: "m = mk_match s (Some v) None rest"
    by (auto simp: typescript_at_alt1 split: option.splits)
  from assignment_at_shape[OF a] obtain ws1 sep ws2 q1 q2 where
    s: "s = ''version'' @ ws1 @ [sep] @ ws2 @ [q1] @ v @ [q2] @ rest" and
    p: "list_all is_space ws1" "is_eq_or_colon sep" "list_all is_space ws2" "is_quote q1"
       "is_quote q2" "v \<noteq> []" "\<forall>c\<in>set v. \<not> is_quote c" by blast
  have "s = (''version'' @ ws1 @ [sep] @ ws2 @ [q1] @ v @ [q2]) @ rest" using s by simp
  then have "matched (mk_match s (Some v) None rest) = ''version'' @ ws1 @ [sep] @ ws2 @ [q1] @ v @ [q2]"
    by (simp only: matched_mk_match)
  with m have mm: "matched m = ''version'' @ ws1 @ [sep] @ ws2 @ [q1] @ v @ [q2]" by simp
  have "s = matched m @ after m" using assms by (rule typescript_at_split)
  moreover have "group1 m = Some v" using m by simp
  ultimately show ?thesis using mm p by blast
qed

lemma space_plain:
  "is_space c \<Longrightarrow> c \<noteq> DQ \<and> c \<noteq> SQ \<and> c \<noteq> CHR ''='' \<and> c \<noteq> CHR '','' \<and> c \<noteq> CHR '':''"
  by (auto simp: is_space_def)

lemma spaces_plain:
  assumes "list_all is_space ws"
  shows "DQ \<notin> set ws" "CHR ''='' \<notin> set ws" "CHR '','' \<notin> set ws"
  using assms space_plain by (auto simp: list_all_iff)

lemma typescript_replacement_declaration:
  assumes "list_all is_space ws1" "is_eq_or_colon sep" "list_all is_space ws2"
    "is_quote q1" "is_quote q2" "\<forall>c\<in>set old. \<not> is_quote c"
    "CHR ''='' \<notin> set old" "CHR '','' \<notin> set old"
  shows "typescript_replacement newVersion (''version'' @ ws1 @ [sep] @ ws2 @ [q1] @ old @ [q2]) =
           ''version'' @ [sep] @ '' '' @ [if q1 = DQ \<or> q2 = DQ then DQ else SQ] @ newVersion @
           [if q1 = DQ \<or> q2 = DQ then DQ else SQ]"
proof -
  let ?mt = "''version'' @ ws1 @ [sep] @ ws2 @ [q1] @ old @ [q2]"
  note w1 = spaces_plain[OF assms(1)] and w2 = spaces_plain[OF assms(3)]
  have oq: "DQ \<notin> set old" using assms(6) by (auto simp: is_quote_def)
  have sepc: "sep \<noteq> DQ" "sep \<noteq> CHR '',''" "sep = CHR ''='' \<or> sep = CHR '':''"
    using assms(2) by (auto simp: is_eq_or_colon_def)
  have qc: "q1 \<noteq> CHR ''=''" "q1 \<noteq> CHR '',''" "q2 \<noteq> CHR ''=''" "q2 \<noteq> CHR '',''"
    using assms(4,5) by (auto simp: is_quote_def)
  have d: "includes_chr ?mt DQ \<longleftrightarrow> q1 = DQ \<or> q2 = DQ"
    using w1(1) w2(1) oq sepc(1) by (auto simp: includes_chr_def)
  have e: "includes_chr ?mt (CHR ''='') \<longleftrightarrow> sep = CHR ''=''"
    using w1(2) w2(2) assms(7) qc(1,3) by (auto simp: includes_chr_def)
  have c: "\<not> includes_chr ?mt (CHR '','')"
    using w1(3) w2(3) assms(8) qc(2,4) sepc(2) by (auto simp: includes_chr_def)
  show ?thesis
    unfolding typescript_replacement_def Let_def d e using c sepc(3) by auto
qed

text \<open>
  Claim C3, as the code has it. The source pattern is not global, so the substitution
  rewrites one declaration: the leftmost match of the pattern. The content is the text
  before that match, the matched declaration (the key, a separator \<open>=\<close> or \<open>:\<close> between
  optional whitespace, and the old version between two quotes) and the text after it.
  The result keeps the text before and after, further declarations included, and has one
  declaration in the place of the match, from which extraction returns the new version.
  For an old version without \<open>=\<close> and without a comma, that declaration is the key, the
  separator of the match, one space, and the new version between two quotes, double
  quotes if the match had one and single quotes otherwise.
\<close>

theorem update_rewrites_first_declaration:
  assumes "exec typescript_at content = Some (pre, m)" and "isValidSemver newVersion"
  shows "\<exists>ws1 sep ws2 q1 old q2 decl.
           content = pre @ ''version'' @ ws1 @ [sep] @ ws2 @ [q1] @ old @ [q2] @ after m \<and>
           list_all is_space ws1 \<and> is_eq_or_colon sep \<and> list_all is_space ws2 \<and>
           is_quote q1 \<and> is_quote q2 \<and> group1 m = Some old \<and>
           updateVersionInContent content newVersion Typescript =
             Inr (pre @ decl @ after m) \<and>
           extractVersion (pre @ decl @ after m) Typescript = Some newVersion \<and>
           (CHR ''='' \<notin> set old \<and> CHR '','' \<notin> set old \<longrightarrow>
              decl =
                ''version'' @ [sep] @ '' '' @ [if q1 = DQ \<or> q2 = DQ then DQ else SQ] @
                newVersion @ [if q1 = DQ \<or> q2 = DQ then DQ else SQ])"
proof -
  from exec_SomeD[OF assms(1)] obtain suf where s: "content = pre @ suf" "typescript_at suf = Some m"
    by blast
  from typescript_at_shape[OF s(2)] obtain ws1 sep ws2 q1 old q2 where
    mm: "matched m = ''version'' @ ws1 @ [sep] @ ws2 @ [q1] @ old @ [q2]" and
    sf: "suf = matched m @ after m" and g: "group1 m = Some old" and
    p: "list_all is_space ws1" "is_eq_or_colon sep" "list_all is_space ws2" "is_quote q1"
       "is_quote q2" "\<forall>c\<in>set old. \<not> is_quote c" by blast
  let ?d = "typescript_replacement newVersion (matched m)"
  have c: "content = pre @ ''version'' @ ws1 @ [sep] @ ws2 @ [q1] @ old @ [q2] @ after m"
    using s(1) sf mm by simp
  have u: "updateVersionInContent content newVersion Typescript = Inr (pre @ ?d @ after m)"
    using assms(1) by (simp add: updateVersionInContent_def replace_fn_def)
  have "extractVersion content Typescript \<noteq> None"
    using assms(1) typescript_at_alt1[of suf] s(2)
    by (auto simp: extractVersion_def split: option.splits)
  from extract_update_valid[OF this assms(2)] u
  have x: "extractVersion (pre @ ?d @ after m) Typescript = Some newVersion" by simp
  have sh: "CHR ''='' \<notin> set old \<and> CHR '','' \<notin> set old \<longrightarrow>
        ?d = ''version'' @ [sep] @ '' '' @ [if q1 = DQ \<or> q2 = DQ then DQ else SQ] @
             newVersion @ [if q1 = DQ \<or> q2 = DQ then DQ else SQ]"
    unfolding mm using typescript_replacement_declaration[OF p] by blast
  from c p(1-5) g u x sh show ?thesis by blast
qed

theorem update_rewrites_first_declaration_witness:
  "exec typescript_at (''const version  =  '' @ [SQ] @ ''1.0.0'' @ [SQ] @ '';'') =
     Some (''const '',
           \<lparr> matched = ''version  =  '' @ [SQ] @ ''1.0.0'' @ [SQ], group1 = Some ''1.0.0'',
             group2 = None, after = '';'' \<rparr>) \<and>
   isValidSemver ''2.0.0'' \<and>
   updateVersionInContent (''const version  =  '' @ [SQ] @ ''1.0.0'' @ [SQ] @ '';'') ''2.0.0'' Typescript =
     Inr (''const version= '' @ [SQ] @ ''2.0.0'' @ [SQ] @ '';'') \<and>
   extractVersion (''const version= '' @ [SQ] @ ''2.0.0'' @ [SQ] @ '';'') Typescript = Some ''2.0.0''"
proof -
  let ?c = "''const version  =  '' @ [SQ] @ ''1.0.0'' @ [SQ] @ '';''"
  let ?m = "\<lparr> matched = ''version  =  '' @ [SQ] @ ''1.0.0'' @ [SQ], group1 = Some ''1.0.0'',
             group2 = None, after = '';'' \<rparr>"
  have e: "exec typescript_at ?c = Some (''const '', ?m)" by code_simp
  have v: "isValidSemver ''2.0.0''" by code_simp
  have u: "updateVersionInContent ?c ''2.0.0'' Typescript =
     Inr (''const version= '' @ [SQ] @ ''2.0.0'' @ [SQ] @ '';'')" by code_simp
  from update_rewrites_first_declaration[OF e v] obtain decl where
    d: "updateVersionInContent ?c ''2.0.0'' Typescript = Inr (''const '' @ decl @ after ?m)"
       "extractVersion (''const '' @ decl @ after ?m) Typescript = Some ''2.0.0''"
    by blast
  from d(1) u have "''const '' @ decl @ after ?m = ''const version= '' @ [SQ] @ ''2.0.0'' @ [SQ] @ '';''"
    by (simp only: sum.inject)
  with d(2) have "extractVersion (''const version= '' @ [SQ] @ ''2.0.0'' @ [SQ] @ '';'') Typescript = Some ''2.0.0''"
    by (simp only:)
  with e v u show ?thesis by blast
qed

text \<open>
  The claim as stated fails: of two declarations at the old version, the second is left
  at the old version.
\<close>

theorem update_all_declarations_counterexample:
  "updateVersionInContent
     (''a = { version: '' @ [DQ] @ ''1.0.0'' @ [DQ] @ '' }; b = { version: '' @ [DQ] @ ''1.0.0'' @ [DQ] @ '' }'')
     ''2.0.0'' Typescript
   = Inr (''a = { version: '' @ [DQ] @ ''2.0.0'' @ [DQ] @ '' }; b = { version: '' @ [DQ] @ ''1.0.0'' @ [DQ] @ '' }'')"
  by code_simp

text \<open>
  The callback looks for its three characters in the whole matched text, the old
  version included.
\<close>

lemma typescript_replacement_whole_match:
  "typescript_replacement ''2.0.0'' (''version: '' @ [DQ] @ ''1,0'' @ [DQ]) =
     ''version: '' @ [DQ] @ ''2.0.0'' @ [DQ] @ '','' \<and>
   typescript_replacement ''2.0.0'' (''version: '' @ [DQ] @ ''a=b'' @ [DQ]) =
     ''version= '' @ [DQ] @ ''2.0.0'' @ [DQ]"
  by code_simp

subsection \<open>Printing and parsing version numbers\<close>

lemma digit_char: "d < 10 \<Longrightarrow> is_digit (char_of (48 + d)) \<and> digit_val (char_of (48 + d)) = d"
  by (simp add: is_digit_def digit_val_def)

lemma show_nat_digits: "list_all is_digit (show_nat n)"
proof (induction n rule: show_nat.induct)
  case (1 n)
  show ?case
  proof (cases "n < 10")
    case True
    then show ?thesis using digit_char[of n] by (simp add: show_nat.simps[of n])
  next
    case False
    then show ?thesis using 1 digit_char[of "n mod 10"] by (simp add: show_nat.simps[of n])
  qed
qed

lemma show_nat_ne: "show_nat n \<noteq> []"
  by (simp add: show_nat.simps[of n])

lemma nat_of_digits_snoc: "nat_of_digits (s @ [c]) = 10 * nat_of_digits s + digit_val c"
  by (simp add: nat_of_digits_def)

lemma nat_of_show: "nat_of_digits (show_nat n) = n"
proof (induction n rule: show_nat.induct)
  case (1 n)
  show ?case
  proof (cases "n < 10")
    case True
    then show ?thesis using digit_char[of n] by (simp add: show_nat.simps[of n] nat_of_digits_def)
  next
    case False
    then show ?thesis using 1 digit_char[of "n mod 10"]
      by (simp add: show_nat.simps[of n] nat_of_digits_snoc)
  qed
qed

lemma show_nat_hd: "hd (show_nat n) = CHR ''0'' \<Longrightarrow> n = 0"
proof (induction n rule: show_nat.induct)
  case (1 n)
  show ?case
  proof (cases "n < 10")
    case True
    with 1(2) have "char_of (48 + n) = CHR ''0''" by (simp add: show_nat.simps[of n])
    then have "of_char (char_of (48 + n) :: char) = (48 :: nat)" by simp
    with True show ?thesis by simp
  next
    case False
    with 1(2) have "hd (show_nat (n div 10)) = CHR ''0''"
      by (simp add: show_nat.simps[of n] show_nat_ne)
    with 1(1) False have "n div 10 = 0" by simp
    with False show ?thesis by simp
  qed
qed

lemma show_nat_0: "show_nat 0 = ''0''"
  by code_simp

lemma show_nat_numeric: "is_numeric_identifier (show_nat n)"
  using show_nat_hd[of n] show_nat_0
  by (auto simp: is_numeric_identifier_def show_nat_ne show_nat_digits)

lemma show_nat_length: "n < 10 ^ k \<Longrightarrow> 0 < k \<Longrightarrow> length (show_nat n) \<le> k"
proof (induction n arbitrary: k rule: show_nat.induct)
  case (1 n)
  show ?case
  proof (cases "n < 10")
    case True
    then show ?thesis using 1(3) by (simp add: show_nat.simps[of n])
  next
    case False
    then obtain k' where k: "k = Suc k'" "0 < k'" using 1(2,3)
      by (cases k; cases "k - 1") auto
    with 1(2) have "n div 10 < 10 ^ k'" by (simp add: less_mult_imp_div_less mult.commute)
    from 1(1)[OF False this k(2)] show ?thesis using False k by (simp add: show_nat.simps[of n])
  qed
qed

lemma digit_not_special:
  "is_digit c \<Longrightarrow> \<not> is_space c \<and> c \<noteq> CHR ''.'' \<and> c \<noteq> CHR ''-'' \<and> c \<noteq> CHR ''+'' \<and> c \<noteq> CHR ''v''"
proof -
  have "\<not> is_digit (CHR ''.'')" "\<not> is_digit (CHR ''-'')" "\<not> is_digit (CHR ''+'')" "\<not> is_digit (CHR ''v'')"
    by (simp_all add: is_digit_def)
  moreover have "is_digit c \<Longrightarrow> \<not> is_space c" by (auto simp: is_digit_def is_space_def)
  ultimately show "is_digit c \<Longrightarrow> ?thesis" by blast
qed

lemma show_nat_chars: "c \<in> set (show_nat n) \<Longrightarrow> is_digit c"
  using show_nat_digits[of n] by (simp add: list_all_iff)

lemma split_on_single: "d \<notin> set a \<Longrightarrow> split_on d a = [a]"
  by (induction a) auto

lemma split_on_append: "d \<notin> set a \<Longrightarrow> split_on d (a @ d # r) = a # split_on d r"
  by (induction a) (auto split: list.splits)

lemma trim_id: "s \<noteq> [] \<Longrightarrow> \<not> is_space (hd s) \<Longrightarrow> \<not> is_space (last s) \<Longrightarrow> trim s = s"
proof -
  assume a: "s \<noteq> []" "\<not> is_space (hd s)" "\<not> is_space (last s)"
  then have 1: "dropWhile is_space s = s" by (cases s) auto
  from a have "dropWhile is_space (rev s) = rev s" by (cases "rev s") (auto simp: hd_rev)
  with 1 show ?thesis by (simp add: trim_def)
qed

lemma dotted_chars: "x \<in> set (dotted a b c) \<Longrightarrow> is_digit x \<or> x = CHR ''.''"
  by (auto simp: dotted_def dest: show_nat_chars)

lemma dotted_split: "split_on (CHR ''.'') (dotted a b c) = [show_nat a, show_nat b, show_nat c]"
proof -
  have n: "CHR ''.'' \<notin> set (show_nat k)" for k
    using show_nat_chars digit_not_special by blast
  have "split_on (CHR ''.'') (show_nat a @ CHR ''.'' # show_nat b @ CHR ''.'' # show_nat c)
        = show_nat a # split_on (CHR ''.'') (show_nat b @ CHR ''.'' # show_nat c)"
    by (rule split_on_append[OF n])
  also have "split_on (CHR ''.'') (show_nat b @ CHR ''.'' # show_nat c)
        = show_nat b # split_on (CHR ''.'') (show_nat c)"
    by (rule split_on_append[OF n])
  also have "split_on (CHR ''.'') (show_nat c) = [show_nat c]"
    by (rule split_on_single[OF n])
  finally show ?thesis by (simp add: dotted_def)
qed

lemma dotted_ends: "dotted a b c \<noteq> []" "is_digit (hd (dotted a b c))" "is_digit (last (dotted a b c))"
proof -
  show "dotted a b c \<noteq> []" by (simp add: dotted_def)
  have "hd (dotted a b c) = hd (show_nat a)" by (simp add: dotted_def show_nat_ne)
  moreover have "hd (show_nat a) \<in> set (show_nat a)" by (simp add: show_nat_ne)
  ultimately show "is_digit (hd (dotted a b c))" using show_nat_chars by metis
  have "last (dotted a b c) = last (show_nat c)" by (simp add: dotted_def show_nat_ne)
  moreover have "last (show_nat c) \<in> set (show_nat c)" by (simp add: show_nat_ne)
  ultimately show "is_digit (last (dotted a b c))" using show_nat_chars by metis
qed

lemma show_nat_length_safe: "n \<le> MAX_SAFE_INTEGER + 1 \<Longrightarrow> length (show_nat n) \<le> 16"
  by (rule show_nat_length) (simp_all add: MAX_SAFE_INTEGER_def)

lemma dotted_parts:
  "strip_v (dotted a b c) = dotted a b c"
  "main_part (dotted a b c) = dotted a b c"
  "prerelease_part (dotted a b c) = None"
  "build_part (dotted a b c) = None"
  "trim (dotted a b c) = dotted a b c"
proof -
  have all: "\<forall>x\<in>set (dotted a b c). x \<noteq> CHR ''-'' \<and> x \<noteq> CHR ''+''"
    using dotted_chars digit_not_special by blast
  have hv: "hd (dotted a b c) \<noteq> CHR ''v''"
    using dotted_ends(2) digit_not_special by blast
  show "strip_v (dotted a b c) = dotted a b c"
    using hv dotted_ends(1) by (cases "dotted a b c") (auto simp: strip_v_def)
  show "main_part (dotted a b c) = dotted a b c"
    using all by (simp add: main_part_def)
  have d: "dropWhile (\<lambda>c. c \<noteq> CHR ''-'' \<and> c \<noteq> CHR ''+'') (dotted a b c) = []"
    using all by simp
  show "prerelease_part (dotted a b c) = None" by (simp add: prerelease_part_def d)
  show "build_part (dotted a b c) = None" by (simp add: build_part_def d)
  show "trim (dotted a b c) = dotted a b c"
    using dotted_ends digit_not_special by (intro trim_id) blast+
qed

lemma new_SemVer_dotted:
  assumes "a \<le> MAX_SAFE_INTEGER" "b \<le> MAX_SAFE_INTEGER" "c \<le> MAX_SAFE_INTEGER"
  shows "new_SemVer (dotted a b c) =
           Inr \<lparr> major = a, minor = b, patch = c, prerelease = [], build = [] \<rparr>"
proof -
  have len: "length (dotted a b c) \<le> MAX_LENGTH"
    using show_nat_length_safe[of a] show_nat_length_safe[of b] show_nat_length_safe[of c] assms
    by (simp add: dotted_def MAX_LENGTH_def)
  have mn: "main_numbers (dotted a b c) = [show_nat a, show_nat b, show_nat c]"
    by (simp add: main_numbers_def dotted_parts dotted_split)
  have pi: "prerelease_ids (dotted a b c) = []" "build_ids (dotted a b c) = []"
    by (simp_all add: prerelease_ids_def build_ids_def dotted_parts)
  have full: "matches_FULL (dotted a b c)"
    by (simp add: matches_FULL_def mn pi show_nat_numeric)
  show ?thesis
    using len full assms
    by (simp add: new_SemVer_def dotted_parts mn pi nat_of_show)
qed

lemma format_dotted:
  "prerelease v = [] \<Longrightarrow> format_semver v = dotted (major v) (minor v) (patch v)"
  by (simp add: format_semver_def dotted_def)

lemma new_SemVer_Inr:
  "new_SemVer s = Inr v \<longleftrightarrow>
     (length s \<le> MAX_LENGTH \<and> matches_FULL (trim s) \<and>
      nat_of_digits (main_numbers (trim s) ! 0) \<le> MAX_SAFE_INTEGER \<and>
      nat_of_digits (main_numbers (trim s) ! 1) \<le> MAX_SAFE_INTEGER \<and>
      nat_of_digits (main_numbers (trim s) ! 2) \<le> MAX_SAFE_INTEGER \<and>
      v = \<lparr> major = nat_of_digits (main_numbers (trim s) ! 0),
            minor = nat_of_digits (main_numbers (trim s) ! 1),
            patch = nat_of_digits (main_numbers (trim s) ! 2),
            prerelease = map to_ident (prerelease_ids (trim s)),
            build = build_ids (trim s) \<rparr>)"
  unfolding new_SemVer_def Let_def by (simp add: not_less) blast

lemma new_SemVer_bounds:
  "new_SemVer s = Inr v \<Longrightarrow>
     major v \<le> MAX_SAFE_INTEGER \<and> minor v \<le> MAX_SAFE_INTEGER \<and> patch v \<le> MAX_SAFE_INTEGER"
  unfolding new_SemVer_Inr by simp

lemma parse_semver_Some: "parse_semver s = Some v \<longleftrightarrow> new_SemVer s = Inr v"
  by (cases "new_SemVer s") (simp_all add: parse_semver_def)

lemma dotted_inject:
  assumes "a \<le> MAX_SAFE_INTEGER" "b \<le> MAX_SAFE_INTEGER" "c \<le> MAX_SAFE_INTEGER"
    "a' \<le> MAX_SAFE_INTEGER" "b' \<le> MAX_SAFE_INTEGER" "c' \<le> MAX_SAFE_INTEGER"
    "dotted a b c = dotted a' b' c'"
  shows "a = a' \<and> b = b' \<and> c = c'"
proof -
  have "Inr \<lparr> major = a, minor = b, patch = c, prerelease = [], build = [] \<rparr> =
        (Inr \<lparr> major = a', minor = b', patch = c', prerelease = [], build = [] \<rparr> :: js_error + semver)"
    using new_SemVer_dotted[OF assms(1-3)] new_SemVer_dotted[OF assms(4-6)] assms(7) by metis
  then show ?thesis by simp
qed

lemma compare_release:
  assumes "prerelease x = []" "prerelease y = []"
    "major x \<le> MAX_SAFE_INTEGER" "minor x \<le> MAX_SAFE_INTEGER" "patch x \<le> MAX_SAFE_INTEGER"
    "major y \<le> MAX_SAFE_INTEGER" "minor y \<le> MAX_SAFE_INTEGER" "patch y \<le> MAX_SAFE_INTEGER"
  shows "compare_SemVer x y = compareMain x y"
proof (cases "format_semver y = format_semver x")
  case True
  then have "dotted (major y) (minor y) (patch y) = dotted (major x) (minor x) (patch x)"
    using assms(1,2) by (simp add: format_dotted)
  from dotted_inject[OF assms(6-8) assms(3-5) this] have "compareMain x y = 0"
    by (simp add: compareMain_def cmp_nat_def)
  with True show ?thesis by (simp add: compare_SemVer_def)
next
  case False
  then show ?thesis using assms(1,2) by (simp add: compare_SemVer_def comparePre_def)
qed

lemma dotted_no_dash: "CHR ''-'' \<notin> set (dotted a b c)"
  using dotted_chars[of "CHR ''-''" a b c] digit_not_special[of "CHR ''-''"] by auto

lemma format_prerelease_dash:
  "prerelease v \<noteq> [] \<Longrightarrow> CHR ''-'' \<in> set (format_semver v)"
  by (simp add: format_semver_def)

lemma compare_dotted_after:
  assumes c: "new_SemVer current = Inr v"
    and b: "a \<le> MAX_SAFE_INTEGER" "b \<le> MAX_SAFE_INTEGER" "c \<le> MAX_SAFE_INTEGER"
    and g: "compareMain \<lparr> major = a, minor = b, patch = c, prerelease = [], build = [] \<rparr> v = 1 \<or>
            (compareMain \<lparr> major = a, minor = b, patch = c, prerelease = [], build = [] \<rparr> v = 0 \<and>
             prerelease v \<noteq> [])"
  shows "semver_compare (dotted a b c) current = Inr 1"
proof -
  let ?n = "\<lparr> major = a, minor = b, patch = c, prerelease = [], build = [] \<rparr>"
  from new_SemVer_bounds[OF c] have vb: "major v \<le> MAX_SAFE_INTEGER"
    "minor v \<le> MAX_SAFE_INTEGER" "patch v \<le> MAX_SAFE_INTEGER" by simp_all
  have fn: "format_semver ?n = dotted a b c" by (simp add: format_dotted)
  have "compare_SemVer ?n v = 1"
  proof (cases "prerelease v = []")
    case True
    have "compare_SemVer ?n v = compareMain ?n v"
      using True b vb by (intro compare_release) simp_all
    with g True show ?thesis by simp
  next
    case False
    from format_prerelease_dash[OF False] dotted_no_dash[of a b c] fn
    have ne: "format_semver v \<noteq> format_semver ?n" by metis
    from g show ?thesis
    proof
      assume "compareMain ?n v = 1"
      with ne show ?thesis by (simp add: compare_SemVer_def)
    next
      assume "compareMain ?n v = 0 \<and> prerelease v \<noteq> []"
      with ne show ?thesis by (simp add: compare_SemVer_def comparePre_def)
    qed
  qed
  with new_SemVer_dotted[OF b] c show ?thesis by (simp add: semver_compare_def)
qed

lemma semver_inc_valid:
  assumes "new_SemVer current = Inr v"
  shows "semver_inc current RelPatch =
           Some (dotted (major v) (minor v) (if prerelease v = [] then patch v + 1 else patch v))"
    "semver_inc current RelMinor =
       Some (dotted (major v)
               (if patch v \<noteq> 0 \<or> prerelease v = [] then minor v + 1 else minor v) 0)"
    "semver_inc current RelMajor =
       Some (dotted
               (if minor v \<noteq> 0 \<or> patch v \<noteq> 0 \<or> prerelease v = [] then major v + 1 else major v)
               0 0)"
  using assms by (simp_all add: semver_inc_def format_dotted)

subsection \<open>Increment\<close>

text \<open>
  Claim C5, as the code has it. For every valid version, each of the modes patch, minor
  and major returns \<open>MAJOR.MINOR.PATCH\<close>, without prerelease tag and build metadata, with
  the components above the named one unchanged and those below it zero, from
  \<open>calculateNewVersion\<close> and from \<open>autoIncrementVersion\<close> alike. The named component is one
  higher, except for a version with a prerelease tag whose components below the named
  one are all zero: such a version is raised to its own release, and the named component
  stays. Where the named component of the result is at most \<open>MAX_SAFE_INTEGER\<close>, the
  result compares greater than the version it came from.
\<close>

theorem increment_valid_version:
  assumes "parse_semver current = Some v"
  shows
    "calculateNewVersion current Patch customVersion bumpSet =
       Inr (dotted (major v) (minor v) (if prerelease v = [] then patch v + 1 else patch v)) \<and>
     calculateNewVersion current Minor customVersion bumpSet =
       Inr (dotted (major v)
              (if patch v \<noteq> 0 \<or> prerelease v = [] then minor v + 1 else minor v) 0) \<and>
     calculateNewVersion current Major customVersion bumpSet =
       Inr (dotted
              (if minor v \<noteq> 0 \<or> patch v \<noteq> 0 \<or> prerelease v = [] then major v + 1 else major v)
              0 0) \<and>
     autoIncrementVersion current AutoPatch =
       Inr (dotted (major v) (minor v) (if prerelease v = [] then patch v + 1 else patch v)) \<and>
     autoIncrementVersion current AutoMinor =
       Inr (dotted (major v)
              (if patch v \<noteq> 0 \<or> prerelease v = [] then minor v + 1 else minor v) 0) \<and>
     autoIncrementVersion current AutoMajor =
       Inr (dotted
              (if minor v \<noteq> 0 \<or> patch v \<noteq> 0 \<or> prerelease v = [] then major v + 1 else major v)
              0 0) \<and>
     ((if prerelease v = [] then patch v + 1 else patch v) \<le> MAX_SAFE_INTEGER \<longrightarrow>
        compareVersions
          (dotted (major v) (minor v) (if prerelease v = [] then patch v + 1 else patch v))
          current = Inr 1) \<and>
     ((if patch v \<noteq> 0 \<or> prerelease v = [] then minor v + 1 else minor v) \<le> MAX_SAFE_INTEGER \<longrightarrow>
        compareVersions
          (dotted (major v)
             (if patch v \<noteq> 0 \<or> prerelease v = [] then minor v + 1 else minor v) 0)
          current = Inr 1) \<and>
     ((if minor v \<noteq> 0 \<or> patch v \<noteq> 0 \<or> prerelease v = [] then major v + 1 else major v)
        \<le> MAX_SAFE_INTEGER \<longrightarrow>
        compareVersions
          (dotted
             (if minor v \<noteq> 0 \<or> patch v \<noteq> 0 \<or> prerelease v = [] then major v + 1 else major v)
             0 0)
          current = Inr 1)"
proof -
  let ?p = "if prerelease v = [] then patch v + 1 else patch v"
  let ?mi = "if patch v \<noteq> 0 \<or> prerelease v = [] then minor v + 1 else minor v"
  let ?ma = "if minor v \<noteq> 0 \<or> patch v \<noteq> 0 \<or> prerelease v = [] then major v + 1 else major v"
  from assms(1) have n: "new_SemVer current = Inr v" by (simp add: parse_semver_Some)
  note inc = semver_inc_valid[OF n]
  from new_SemVer_bounds[OF n] have vb: "major v \<le> MAX_SAFE_INTEGER"
    "minor v \<le> MAX_SAFE_INTEGER" "patch v \<le> MAX_SAFE_INTEGER" by simp_all
  have z: "(0::nat) \<le> MAX_SAFE_INTEGER" by simp
  have valid: "semver_valid current" using assms(1) by (simp add: semver_valid_def)
  have calc: "calculateNewVersion current Patch customVersion bumpSet =
       Inr (dotted (major v) (minor v) ?p)"
     "calculateNewVersion current Minor customVersion bumpSet = Inr (dotted (major v) ?mi 0)"
     "calculateNewVersion current Major customVersion bumpSet = Inr (dotted ?ma 0 0)"
    by (simp_all only: calculateNewVersion_def releaseType_def inc BumpMode.simps
          option.case if_False)
  have auto: "autoIncrementVersion current AutoPatch = Inr (dotted (major v) (minor v) ?p)"
     "autoIncrementVersion current AutoMinor = Inr (dotted (major v) ?mi 0)"
     "autoIncrementVersion current AutoMajor = Inr (dotted ?ma 0 0)"
    using valid
    by (simp_all only: autoIncrementVersion_def releaseTypeMap_def inc AutoBumpMode.simps
          option.case if_False not_True_eq_False simp_thms)
  have p: "compareVersions (dotted (major v) (minor v) ?p) current = Inr 1"
    if "?p \<le> MAX_SAFE_INTEGER"
  proof -
    have "compareMain \<lparr> major = major v, minor = minor v, patch = ?p,
            prerelease = [], build = [] \<rparr> v = 1 \<or>
          (compareMain \<lparr> major = major v, minor = minor v, patch = ?p,
            prerelease = [], build = [] \<rparr> v = 0 \<and> prerelease v \<noteq> [])"
      by (simp add: compareMain_def cmp_nat_def)
    moreover note that
    ultimately show ?thesis
      unfolding compareVersions_def using vb(1,2)
      by (intro compare_dotted_after[OF n])
  qed
  have mi: "compareVersions (dotted (major v) ?mi 0) current = Inr 1"
    if "?mi \<le> MAX_SAFE_INTEGER"
  proof -
    have "compareMain \<lparr> major = major v, minor = ?mi, patch = 0,
            prerelease = [], build = [] \<rparr> v = 1 \<or>
          (compareMain \<lparr> major = major v, minor = ?mi, patch = 0,
            prerelease = [], build = [] \<rparr> v = 0 \<and> prerelease v \<noteq> [])"
      by (simp add: compareMain_def cmp_nat_def)
    moreover note that
    ultimately show ?thesis
      unfolding compareVersions_def using vb(1) z
      by (intro compare_dotted_after[OF n])
  qed
  have ma: "compareVersions (dotted ?ma 0 0) current = Inr 1"
    if "?ma \<le> MAX_SAFE_INTEGER"
  proof -
    have "compareMain \<lparr> major = ?ma, minor = 0, patch = 0,
            prerelease = [], build = [] \<rparr> v = 1 \<or>
          (compareMain \<lparr> major = ?ma, minor = 0, patch = 0,
            prerelease = [], build = [] \<rparr> v = 0 \<and> prerelease v \<noteq> [])"
      by (simp add: compareMain_def cmp_nat_def)
    moreover note that
    ultimately show ?thesis
      unfolding compareVersions_def using z
      by (intro compare_dotted_after[OF n])
  qed
  from calc auto p mi ma show ?thesis by blast
qed

theorem increment_valid_version_witness:
  "parse_semver ''4.5.6'' =
     Some \<lparr> major = 4, minor = 5, patch = 6, prerelease = [], build = [] \<rparr> \<and>
   calculateNewVersion ''4.5.6'' Patch None None = Inr ''4.5.7'' \<and>
   calculateNewVersion ''4.5.6'' Minor None None = Inr ''4.6.0'' \<and>
   calculateNewVersion ''4.5.6'' Major None None = Inr ''5.0.0'' \<and>
   compareVersions ''4.5.7'' ''4.5.6'' = Inr 1 \<and>
   compareVersions ''4.6.0'' ''4.5.6'' = Inr 1 \<and>
   compareVersions ''5.0.0'' ''4.5.6'' = Inr 1 \<and>
   parse_semver ''4.5.0-rc.7'' =
     Some \<lparr> major = 4, minor = 5, patch = 0, prerelease = [Str ''rc'', Num 7], build = [] \<rparr> \<and>
   autoIncrementVersion ''4.5.0-rc.7'' AutoPatch = Inr ''4.5.0'' \<and>
   autoIncrementVersion ''4.5.0-rc.7'' AutoMinor = Inr ''4.5.0'' \<and>
   autoIncrementVersion ''4.5.0-rc.7'' AutoMajor = Inr ''5.0.0'' \<and>
   compareVersions ''4.5.0'' ''4.5.0-rc.7'' = Inr 1 \<and>
   compareVersions ''5.0.0'' ''4.5.0-rc.7'' = Inr 1"
proof -
  let ?v = "\<lparr> major = 4, minor = 5, patch = 6, prerelease = [], build = [] \<rparr>"
  let ?w = "\<lparr> major = 4, minor = 5, patch = 0, prerelease = [Str ''rc'', Num 7], build = [] \<rparr>"
  have p: "parse_semver ''4.5.6'' = Some ?v" by code_simp
  have q: "parse_semver ''4.5.0-rc.7'' = Some ?w" by code_simp
  have d: "dotted 4 5 7 = ''4.5.7''" "dotted 4 6 0 = ''4.6.0''" "dotted 5 0 0 = ''5.0.0''"
    "dotted 4 5 0 = ''4.5.0''"
    by code_simp+
  have m: "(7::nat) \<le> MAX_SAFE_INTEGER" "(6::nat) \<le> MAX_SAFE_INTEGER"
    "(5::nat) \<le> MAX_SAFE_INTEGER"
    by (simp_all add: MAX_SAFE_INTEGER_def)
  from increment_valid_version[OF p, of None None] increment_valid_version[OF q, of None None]
    p q d m show ?thesis by simp
qed

text \<open>
  The claim as stated fails on a version with a prerelease tag: the patch increment of
  \<open>1.2.3-alpha\<close> is \<open>1.2.3\<close>, whose patch component is the one it had. And it fails at
  the largest component: the major increment of \<open>9007199254740991.0.0\<close>, a valid version,
  is \<open>9007199254740992.0.0\<close>, which is not a valid version, so that the comparison with
  it throws.
\<close>

theorem increment_claim_counterexample:
  "calculateNewVersion ''1.2.3-alpha'' Patch None None = Inr ''1.2.3'' \<and>
   isValidSemver ''9007199254740991.0.0'' \<and>
   calculateNewVersion ''9007199254740991.0.0'' Major None None = Inr ''9007199254740992.0.0'' \<and>
   compareVersions ''9007199254740992.0.0'' ''9007199254740991.0.0'' =
     Inl (TypeError ''Invalid major version'')"
  by code_simp

subsection \<open>The latest version\<close>

lemma test_any_iff:
  "test_any x \<longleftrightarrow> (\<exists>v. new_SemVer x = Inr v \<and> prerelease v = [])"
  by (cases "new_SemVer x") (simp_all add: test_any_def)

lemma test_any_valid: "test_any x \<Longrightarrow> isValidSemver x"
  by (auto simp: test_any_iff isValidSemver_def semver_valid_def parse_semver_Some)

lemma loop_filter_valid:
  "maxSatisfying_loop mx (filter isValidSemver vs) = maxSatisfying_loop mx vs"
proof (induction vs arbitrary: mx)
  case Nil
  show ?case by simp
next
  case (Cons v vs)
  show ?case
  proof (cases "isValidSemver v")
    case True
    then show ?thesis using Cons by (simp split: option.splits)
  next
    case False
    then have "\<not> test_any v" using test_any_valid by blast
    with False Cons show ?thesis by simp
  qed
qed

lemma getLatestVersion_loop: "getLatestVersion vs = maxSatisfying_loop None vs"
proof (cases "filter isValidSemver vs = []")
  case True
  then have "maxSatisfying_loop None (filter isValidSemver vs) = None" by simp
  then have "maxSatisfying_loop None vs = None" by (simp only: loop_filter_valid)
  with True show ?thesis by (simp add: getLatestVersion_def)
next
  case False
  then show ?thesis
    by (simp add: getLatestVersion_def maxSatisfying_any_def loop_filter_valid)
qed

lemma compare_release_strings:
  assumes "test_any a" "test_any b"
  shows "\<exists>x y. new_SemVer a = Inr x \<and> new_SemVer b = Inr y \<and>
           semver_compare a b = Inr (compareMain x y)"
proof -
  from assms obtain x y where x: "new_SemVer a = Inr x" "prerelease x = []"
    and y: "new_SemVer b = Inr y" "prerelease y = []"
    by (auto simp: test_any_iff)
  from new_SemVer_bounds[OF x(1)] new_SemVer_bounds[OF y(1)] x(2) y(2)
  have "compare_SemVer x y = compareMain x y" by (intro compare_release) simp_all
  with x y show ?thesis by (simp add: semver_compare_def)
qed

lemma cmp_nat_cases: "cmp_nat a b = - 1 \<longleftrightarrow> a < b" "cmp_nat a b = 0 \<longleftrightarrow> a = b" "cmp_nat a b = 1 \<longleftrightarrow> b < a"
  by (simp_all add: cmp_nat_def)

lemma compareMain_less:
  "compareMain x y = - 1 \<longleftrightarrow>
     major x < major y \<or> (major x = major y \<and> (minor x < minor y \<or> (minor x = minor y \<and> patch x < patch y)))"
  by (auto simp: compareMain_def cmp_nat_def)

lemma compareMain_range: "compareMain x y = - 1 \<or> compareMain x y = 0 \<or> compareMain x y = 1"
  by (simp add: compareMain_def cmp_nat_def)

lemma not_below_iff:
  assumes "test_any a" "test_any b"
  shows "not_below a b \<longleftrightarrow> semver_compare a b \<noteq> Inr (- 1)"
proof -
  from compare_release_strings[OF assms] obtain x y where
    c: "semver_compare a b = Inr (compareMain x y)" by blast
  from compareMain_range[of x y] show ?thesis unfolding not_below_def c by auto
qed

lemma not_below_trans1:
  assumes "test_any r" "test_any v" "test_any m"
    "not_below r v" "semver_compare m v = Inr (- 1)"
  shows "not_below r m"
proof -
  from compare_release_strings[OF assms(1,2)] compare_release_strings[OF assms(3,2)]
    compare_release_strings[OF assms(1,3)]
  obtain x y z where "new_SemVer r = Inr x" "new_SemVer v = Inr y" "new_SemVer m = Inr z"
    "semver_compare r v = Inr (compareMain x y)" "semver_compare m v = Inr (compareMain z y)"
    "semver_compare r m = Inr (compareMain x z)" by auto
  moreover from this assms(4,5) have "compareMain x y \<noteq> - 1" "compareMain z y = - 1"
    by (auto simp: not_below_def)
  then have "compareMain x z \<noteq> - 1" unfolding compareMain_less by linarith
  ultimately show ?thesis using not_below_iff[OF assms(1,3)] by simp
qed

lemma not_below_trans2:
  assumes "test_any r" "test_any m" "test_any v"
    "not_below r m" "semver_compare m v \<noteq> Inr (- 1)"
  shows "not_below r v"
proof -
  from compare_release_strings[OF assms(1,2)] compare_release_strings[OF assms(2,3)]
    compare_release_strings[OF assms(1,3)]
  obtain x y z where "new_SemVer r = Inr x" "new_SemVer m = Inr y" "new_SemVer v = Inr z"
    "semver_compare r m = Inr (compareMain x y)" "semver_compare m v = Inr (compareMain y z)"
    "semver_compare r v = Inr (compareMain x z)" by auto
  moreover from this assms(4,5) have "compareMain x y \<noteq> - 1" "compareMain y z \<noteq> - 1"
    by (auto simp: not_below_def)
  then have "compareMain x z \<noteq> - 1" unfolding compareMain_less by linarith
  ultimately show ?thesis using not_below_iff[OF assms(1,3)] by simp
qed

lemma not_below_refl: "test_any a \<Longrightarrow> not_below a a"
  using compare_release_strings[of a a] compareMain_less[of _ _] not_below_iff[of a a]
  by (auto simp: compareMain_def cmp_nat_def)

lemma maxSatisfying_loop_None:
  "maxSatisfying_loop mx vs = None \<longleftrightarrow> mx = None \<and> (\<forall>y\<in>set vs. \<not> test_any y)"
  by (induction vs arbitrary: mx) (auto split: option.splits)

lemma maxSatisfying_loop_Some:
  assumes "maxSatisfying_loop mx vs = Some r" and "\<forall>m. mx = Some m \<longrightarrow> test_any m"
  shows "test_any r \<and> (mx = Some r \<or> r \<in> set vs) \<and>
         (\<forall>y\<in>set vs. test_any y \<longrightarrow> not_below r y) \<and>
         (\<forall>m. mx = Some m \<longrightarrow> not_below r m)"
  using assms
proof (induction vs arbitrary: mx)
  case Nil
  then show ?case by (auto intro: not_below_refl)
next
  case (Cons v vs)
  show ?case
  proof (cases "test_any v")
    case False
    with Cons.prems have "maxSatisfying_loop mx vs = Some r" by simp
    from Cons.IH[OF this Cons.prems(2)] False show ?thesis by auto
  next
    case True
    show ?thesis
    proof (cases mx)
      case None
      with True Cons.prems have "maxSatisfying_loop (Some v) vs = Some r" by simp
      from Cons.IH[OF this] True None show ?thesis by auto
    next
      case (Some m)
      with Cons.prems(2) have tm: "test_any m" by simp
      show ?thesis
      proof (cases "semver_compare m v = Inr (- 1)")
        case lt: True
        with True Some Cons.prems have "maxSatisfying_loop (Some v) vs = Some r" by simp
        from Cons.IH[OF this] True
        have ih: "test_any r" "v = r \<or> r \<in> set vs" "\<forall>y\<in>set vs. test_any y \<longrightarrow> not_below r y"
          "not_below r v" by auto
        from not_below_trans1[OF ih(1) True tm ih(4) lt] have "not_below r m" .
        with ih Some show ?thesis by auto
      next
        case ge: False
        with True Some Cons.prems have "maxSatisfying_loop (Some m) vs = Some r" by simp
        from Cons.IH[OF this] tm
        have ih: "test_any r" "m = r \<or> r \<in> set vs" "\<forall>y\<in>set vs. test_any y \<longrightarrow> not_below r y"
          "not_below r m" by auto
        from not_below_trans2[OF ih(1) tm True ih(4) ge] have "not_below r v" .
        with ih Some show ?thesis by auto
      qed
    qed
  qed
qed

text \<open>
  Claim C6, as the code has it. \<open>getLatestVersion\<close> returns \<open>null\<close> exactly when no
  string of the list passes the test of the range \<open>*\<close>, that is, when the list holds no
  valid version without a prerelease tag. Otherwise it returns a string of the list
  that passes the test and that is not below any other string of the list that passes
  it.
\<close>

theorem latest_release_version:
  "(getLatestVersion versions = None \<longleftrightarrow> (\<forall>x\<in>set versions. \<not> test_any x)) \<and>
   (\<forall>r. getLatestVersion versions = Some r \<longrightarrow>
      r \<in> set versions \<and> test_any r \<and>
      (\<forall>y\<in>set versions. test_any y \<longrightarrow>
         compareVersions r y = Inr 0 \<or> compareVersions r y = Inr 1))"
proof (intro conjI allI impI)
  show "getLatestVersion versions = None \<longleftrightarrow> (\<forall>x\<in>set versions. \<not> test_any x)"
    by (simp add: getLatestVersion_loop maxSatisfying_loop_None)
next
  fix r assume "getLatestVersion versions = Some r"
  then have "maxSatisfying_loop None versions = Some r" by (simp add: getLatestVersion_loop)
  from maxSatisfying_loop_Some[OF this]
  have r: "test_any r" "r \<in> set versions" "\<forall>y\<in>set versions. test_any y \<longrightarrow> not_below r y"
    by auto
  show "r \<in> set versions" by (rule r(2))
  show "test_any r" by (rule r(1))
  show "\<forall>y\<in>set versions. test_any y \<longrightarrow>
         compareVersions r y = Inr 0 \<or> compareVersions r y = Inr 1"
    using r(3) by (simp add: not_below_def compareVersions_def)
qed

theorem latest_release_version_witness:
  "getLatestVersion [''1.0.0'', ''2.0.0-beta'', ''1.5.0'', ''latest''] = Some ''1.5.0'' \<and>
   ''1.5.0'' \<in> set [''1.0.0'', ''2.0.0-beta'', ''1.5.0'', ''latest''] \<and>
   test_any ''1.0.0'' \<and> test_any ''1.5.0'' \<and>
   compareVersions ''1.5.0'' ''1.0.0'' = Inr 1 \<and>
   (getLatestVersion [''2.0.0-beta'', ''latest''] = None)"
proof -
  have g: "getLatestVersion [''1.0.0'', ''2.0.0-beta'', ''1.5.0'', ''latest''] = Some ''1.5.0''"
    by code_simp
  have t: "test_any ''1.0.0''" "test_any ''1.5.0''" "\<not> test_any ''2.0.0-beta''"
    "\<not> test_any ''latest''" by code_simp+
  have c: "compareVersions ''1.5.0'' ''1.0.0'' \<noteq> Inr 0" by code_simp
  from latest_release_version[of "[''1.0.0'', ''2.0.0-beta'', ''1.5.0'', ''latest'']"]
       latest_release_version[of "[''2.0.0-beta'', ''latest'']"] g t c
  show ?thesis by auto
qed

text \<open>
  The claim as stated fails: a list whose only valid version has a prerelease tag gives
  \<open>null\<close>, and a prerelease of a higher version is passed over for a lower release.
\<close>

theorem latest_version_counterexample:
  "isValidSemver ''1.0.0-alpha'' \<and> getLatestVersion [''1.0.0-alpha''] = None \<and>
   isValidSemver ''2.0.0-beta'' \<and> getLatestVersion [''1.0.0'', ''2.0.0-beta''] = Some ''1.0.0'' \<and>
   compareVersions ''1.0.0'' ''2.0.0-beta'' = Inr (- 1)"
  by code_simp

subsection \<open>Numeric identifiers above the safe integers\<close>

text \<open>
  Two prerelease identifiers of digits that differ as texts but have the same nearest
  double compare equal, and so do the versions that differ in them only.
\<close>

lemma to_double_examples:
  "to_double 9007199254740991 = 9007199254740991 \<and>
   to_double 9007199254740993 = 9007199254740992 \<and>
   to_double 9007199254740995 = 9007199254740996"
  by code_simp

lemma semver_eq_nearest_double:
  "semver_eq ''1.0.0-9007199254740993'' ''1.0.0-9007199254740992'' = Inr True"
  by code_simp

subsection \<open>File analysis\<close>

lemma analyzeFiles_loop_map:
  "analyzeFiles_loop fs ref results files = results @ map (analyzeFile fs ref) files"
  by (induction files arbitrary: results) simp_all

lemma analyzeFiles_map: "analyzeFiles fs files ref = map (analyzeFile fs ref) files"
  by (simp add: analyzeFiles_def analyzeFiles_loop_map)

lemma extractVersion_truthy:
  "truthy (extractVersion content ft) = extractVersion content ft"
proof (cases "extractVersion content ft")
  case None
  then show ?thesis by simp
next
  case (Some v)
  have "v \<noteq> []"
  proof (cases ft)
    case PackageJson
    with Some obtain pre m where e: "exec packageJson_at content = Some (pre, m)" "group1 m = Some v"
      by (auto simp: extractVersion_def split: option.splits)
    from exec_SomeD[OF e(1)] obtain suf where "packageJson_at suf = Some m" by blast
    with e(2) show ?thesis
      by (auto simp: packageJson_at_def assignment_at_def split: option.splits if_splits)
  next
    case Typescript
    with Some obtain pre m where e: "exec typescript_at content = Some (pre, m)"
      "(case group1 m of Some v \<Rightarrow> Some v | None \<Rightarrow> group2 m) = Some v"
      by (auto simp: extractVersion_def split: option.splits)
    from exec_SomeD[OF e(1)] obtain suf where "typescript_at suf = Some m" by blast
    with e(2) show ?thesis
      by (auto simp: typescript_at_alt1 assignment_at_def split: option.splits if_splits)
  next
    case Unknown
    with Some show ?thesis by (simp add: extractVersion_def)
  qed
  with Some show ?thesis by (cases v) simp_all
qed

text \<open>
  Claim C8, as the code has it. \<open>analyzeFiles\<close> returns one result per input file, in
  order, and every exception of an iteration ends in a result. A file whose read fails
  is unsupported with the reason \<open>read error: \<close> and the error; a file of unknown type
  is unsupported with the reason \<open>unsupported file type\<close>; a file of a known type without
  an extractable version is unsupported with the reason \<open>no version field found\<close>; and a
  file whose extracted version \<open>semver.eq\<close> compares with the reference version and finds
  not equal is supported and has \<open>versionMismatch\<close> set.
\<close>

theorem analyzeFiles_results:
  "length (analyzeFiles fs files referenceVersion) = length files \<and>
   (\<forall>i<length files.
      a_file (analyzeFiles fs files referenceVersion ! i) = files ! i \<and>
      (\<forall>e. readFile fs (files ! i) = Inl e \<longrightarrow>
         \<not> a_supported (analyzeFiles fs files referenceVersion ! i) \<and>
         a_reason (analyzeFiles fs files referenceVersion ! i) = ''read error: '' @ error_string e) \<and>
      (\<forall>content. readFile fs (files ! i) = Inr content \<longrightarrow>
         (detectFileType (files ! i) content = Unknown \<longrightarrow>
            \<not> a_supported (analyzeFiles fs files referenceVersion ! i) \<and>
            a_reason (analyzeFiles fs files referenceVersion ! i) = ''unsupported file type'') \<and>
         (detectFileType (files ! i) content \<noteq> Unknown \<and>
          extractVersion content (detectFileType (files ! i) content) = None \<longrightarrow>
            \<not> a_supported (analyzeFiles fs files referenceVersion ! i) \<and>
            a_reason (analyzeFiles fs files referenceVersion ! i) = ''no version field found'') \<and>
         (\<forall>detected.
            detectFileType (files ! i) content \<noteq> Unknown \<and>
            extractVersion content (detectFileType (files ! i) content) = Some detected \<and>
            semver_eq detected referenceVersion = Inr False \<longrightarrow>
              a_supported (analyzeFiles fs files referenceVersion ! i) \<and>
              a_versionMismatch (analyzeFiles fs files referenceVersion ! i))))"
proof (intro conjI allI impI)
  show "length (analyzeFiles fs files referenceVersion) = length files"
    by (simp add: analyzeFiles_map)
next
  fix i assume i: "i < length files"
  then have r: "analyzeFiles fs files referenceVersion ! i = analyzeFile fs referenceVersion (files ! i)"
    by (simp add: analyzeFiles_map)
  show "a_file (analyzeFiles fs files referenceVersion ! i) = files ! i"
    unfolding r
    by (simp add: analyzeFile_def analysis_of_error_def Let_def split: sum.splits option.splits)
  {
    fix e assume "readFile fs (files ! i) = Inl e"
    then show "\<not> a_supported (analyzeFiles fs files referenceVersion ! i)"
      "a_reason (analyzeFiles fs files referenceVersion ! i) = ''read error: '' @ error_string e"
      unfolding r by (simp_all add: analyzeFile_def analysis_of_error_def)
  }
  {
    fix content assume c: "readFile fs (files ! i) = Inr content"
    {
      assume "detectFileType (files ! i) content = Unknown"
      with c show "\<not> a_supported (analyzeFiles fs files referenceVersion ! i)"
        "a_reason (analyzeFiles fs files referenceVersion ! i) = ''unsupported file type''"
        unfolding r by (simp_all add: analyzeFile_def)
    }
    {
      assume "detectFileType (files ! i) content \<noteq> Unknown \<and>
          extractVersion content (detectFileType (files ! i) content) = None"
      with c show "\<not> a_supported (analyzeFiles fs files referenceVersion ! i)"
        "a_reason (analyzeFiles fs files referenceVersion ! i) = ''no version field found''"
        unfolding r by (simp_all add: analyzeFile_def)
    }
    {
      fix detected
      assume "detectFileType (files ! i) content \<noteq> Unknown \<and>
            extractVersion content (detectFileType (files ! i) content) = Some detected \<and>
            semver_eq detected referenceVersion = Inr False"
      with c extractVersion_truthy[of content "detectFileType (files ! i) content"]
      show "a_supported (analyzeFiles fs files referenceVersion ! i)"
        "a_versionMismatch (analyzeFiles fs files referenceVersion ! i)"
        unfolding r by (simp_all add: analyzeFile_def)
    }
  }
qed

theorem analyzeFiles_results_witness:
  "readFile fs_example ''locked.ts'' = Inl (Error ''EACCES: permission denied'') \<and>
   a_reason (analyzeFiles fs_example [''locked.ts'', ''README.md'', ''package.json'', ''a.ts''] ''2.0.0'' ! 0)
     = ''read error: Error: EACCES: permission denied'' \<and>
   readFile fs_example ''README.md'' = Inr ''version 1.0.0'' \<and>
   detectFileType ''README.md'' ''version 1.0.0'' = Unknown \<and>
   a_reason (analyzeFiles fs_example [''locked.ts'', ''README.md'', ''package.json'', ''a.ts''] ''2.0.0'' ! 1)
     = ''unsupported file type'' \<and>
   readFile fs_example ''package.json'' = Inr ''{}'' \<and>
   detectFileType ''package.json'' ''{}'' = PackageJson \<and>
   extractVersion ''{}'' PackageJson = None \<and>
   a_reason (analyzeFiles fs_example [''locked.ts'', ''README.md'', ''package.json'', ''a.ts''] ''2.0.0'' ! 2)
     = ''no version field found'' \<and>
   extractVersion (''export const version = '' @ [DQ] @ ''1.0.0'' @ [DQ]) Typescript = Some ''1.0.0'' \<and>
   semver_eq ''1.0.0'' ''2.0.0'' = Inr False \<and>
   a_supported (analyzeFiles fs_example [''locked.ts'', ''README.md'', ''package.json'', ''a.ts''] ''2.0.0'' ! 3) \<and>
   a_versionMismatch (analyzeFiles fs_example [''locked.ts'', ''README.md'', ''package.json'', ''a.ts''] ''2.0.0'' ! 3)"
proof -
  let ?files = "[''locked.ts'', ''README.md'', ''package.json'', ''a.ts'']"
  let ?c = "''export const version = '' @ [DQ] @ ''1.0.0'' @ [DQ]"
  have r0: "readFile fs_example ''locked.ts'' = Inl (Error ''EACCES: permission denied'')"
    by code_simp
  have r1: "readFile fs_example ''README.md'' = Inr ''version 1.0.0''" by code_simp
  have d1: "detectFileType ''README.md'' ''version 1.0.0'' = Unknown" by code_simp
  have r2: "readFile fs_example ''package.json'' = Inr ''{}''" by code_simp
  have d2: "detectFileType ''package.json'' ''{}'' = PackageJson" by code_simp
  have e2: "extractVersion ''{}'' PackageJson = None" by code_simp
  have r3: "readFile fs_example ''a.ts'' = Inr ?c" by code_simp
  have d3: "detectFileType ''a.ts'' ?c = Typescript" by code_simp
  have e3: "extractVersion ?c Typescript = Some ''1.0.0''" by code_simp
  have q: "semver_eq ''1.0.0'' ''2.0.0'' = Inr False" by code_simp
  have n: "?files ! 0 = ''locked.ts''" "?files ! 1 = ''README.md''"
    "?files ! 2 = ''package.json''" "?files ! 3 = ''a.ts''" "length ?files = 4" by simp_all
  note t = analyzeFiles_results[of fs_example ?files "''2.0.0''", THEN conjunct2, rule_format]
  have i: "(0::nat) < length ?files" "(1::nat) < length ?files" "(2::nat) < length ?files"
    "(3::nat) < length ?files" by simp_all
  have a0: "a_reason (analyzeFiles fs_example ?files ''2.0.0'' ! 0)
     = ''read error: Error: EACCES: permission denied''"
    using t[OF i(1), THEN conjunct2, THEN conjunct1, rule_format, of "Error ''EACCES: permission denied''"]
      r0 n by simp
  have a1: "a_reason (analyzeFiles fs_example ?files ''2.0.0'' ! 1) = ''unsupported file type''"
    using t[OF i(2), THEN conjunct2, THEN conjunct2, rule_format, of "''version 1.0.0''"]
      r1 d1 n by simp
  have a2: "a_reason (analyzeFiles fs_example ?files ''2.0.0'' ! 2) = ''no version field found''"
    using t[OF i(3), THEN conjunct2, THEN conjunct2, rule_format, of "''{}''"]
      r2 d2 e2 n by simp
  have a3: "a_supported (analyzeFiles fs_example ?files ''2.0.0'' ! 3) \<and>
            a_versionMismatch (analyzeFiles fs_example ?files ''2.0.0'' ! 3)"
    using t[OF i(4), THEN conjunct2, THEN conjunct2, rule_format, of ?c]
      r3 d3 e3 q n by simp
  from r0 a0 r1 d1 a1 r2 d2 e2 a2 e3 q a3 show ?thesis by simp
qed

text \<open>
  The claim as stated fails where the extracted text is no valid version: \<open>semver.eq\<close>
  throws inside the \<open>try\<close> block and the file is reported as unsupported. And an extracted
  version that differs from the reference in its build metadata only is no mismatch.
\<close>

theorem analyzeFiles_mismatch_counterexample:
  "extractVersion (''export const version = '' @ [DQ] @ ''next'' @ [DQ]) Typescript = Some ''next'' \<and>
   analyzeFiles fs_example [''b.ts''] ''1.0.0'' =
     [\<lparr> a_file = ''b.ts'', a_supported = False, a_detectedVersion = None,
        a_versionMismatch = False,
        a_reason = ''read error: TypeError: Invalid Version: next'',
        a_fileType = Unknown \<rparr>] \<and>
   extractVersion (''export const version = '' @ [DQ] @ ''1.0.0+build'' @ [DQ]) Typescript
     = Some ''1.0.0+build'' \<and>
   analyzeFiles fs_example [''c.ts''] ''1.0.0'' =
     [\<lparr> a_file = ''c.ts'', a_supported = True, a_detectedVersion = Some ''1.0.0+build'',
        a_versionMismatch = False, a_reason = ''ok'', a_fileType = Typescript \<rparr>]"
  by code_simp

subsection \<open>Filter translation\<close>

lemma filePatterns_loop_eq:
  "filePatterns_loop acc fs =
     acc @ map spec_glob_of_filter (filter (\<lambda>t. t \<noteq> []) (map trim fs))"
  by (induction fs arbitrary: acc)
     (simp_all add: Let_def includes_chr_def spec_glob_of_filter_def)

text \<open>
  Claim C9. An empty filter list yields the single pattern \<open>**/package.json\<close>. For a
  non-empty list, the patterns are, in order, the translations of the filters that are
  not blank, each filter taken without its surrounding whitespace: verbatim with a
  wildcard, prefixed with \<open>**/\<close> with a path separator or a dot, and \<open>**/name.*\<close> for a
  bare name.
\<close>

theorem filter_to_glob_translation:
  "filePatterns_of [] = [''**/package.json''] \<and>
   (bumpFilter \<noteq> [] \<longrightarrow>
      filePatterns_of bumpFilter =
        map spec_glob_of_filter (filter (\<lambda>t. t \<noteq> []) (map trim bumpFilter)))"
  by (simp add: filePatterns_of_def filePatterns_loop_eq)

theorem filter_to_glob_translation_witness:
  "[''src/version.ts'', '' pkg '', ''*.json'', ''  ''] \<noteq> [] \<and>
   filePatterns_of [''src/version.ts'', '' pkg '', ''*.json'', ''  ''] =
     [''**/src/version.ts'', ''**/pkg.*'', ''*.json'']"
proof -
  have "map spec_glob_of_filter
          (filter (\<lambda>t. t \<noteq> []) (map trim [''src/version.ts'', '' pkg '', ''*.json'', ''  '']))
        = [''**/src/version.ts'', ''**/pkg.*'', ''*.json'']"
    by (simp add: spec_glob_of_filter_def trim_def is_space_def)
  with filter_to_glob_translation [of "[''src/version.ts'', '' pkg '', ''*.json'', ''  '']"]
  show ?thesis by simp
qed

subsection \<open>Manual mode\<close>

text \<open>
  Claim C10. In manual mode a non-empty \<open>bumpSet\<close> decides the result whatever
  \<open>customVersion\<close> is: it is returned when it is valid and the call throws when it is
  not. Only when \<open>bumpSet\<close> is absent (undefined or empty) is \<open>customVersion\<close> validated
  and returned, and when both are absent the call throws the missing-target error.
\<close>

theorem manual_bumpSet_precedence:
  "(b \<noteq> [] \<and> isValidSemver b \<longrightarrow>
      calculateNewVersion current Manual customVersion (Some b) = Inr b) \<and>
   (b \<noteq> [] \<and> \<not> isValidSemver b \<longrightarrow>
      calculateNewVersion current Manual customVersion (Some b) =
        Inl (Error (''invalid bumpSet version: '' @ b))) \<and>
   (truthy bumpSet = None \<and> truthy customVersion = Some c \<and> isValidSemver c \<longrightarrow>
      calculateNewVersion current Manual customVersion bumpSet = Inr c) \<and>
   (truthy bumpSet = None \<and> truthy customVersion = Some c \<and> \<not> isValidSemver c \<longrightarrow>
      calculateNewVersion current Manual customVersion bumpSet =
        Inl (Error (''invalid custom version: '' @ c))) \<and>
   (truthy bumpSet = None \<and> truthy customVersion = None \<longrightarrow>
      calculateNewVersion current Manual customVersion bumpSet =
        Inl (Error (''either bumpSet (in reliverse.ts) or --customVersion required when bumpType is ''
                    @ [SQ] @ ''manual'' @ [SQ])))"
  by (cases b) (simp_all add: calculateNewVersion_def)

theorem manual_bumpSet_precedence_witness:
  "isValidSemver ''2.0.0'' \<and> \<not> isValidSemver ''next'' \<and>
   calculateNewVersion ''1.0.0'' Manual (Some ''9.9.9'') (Some ''2.0.0'') = Inr ''2.0.0'' \<and>
   calculateNewVersion ''1.0.0'' Manual (Some ''9.9.9'') (Some ''next'') =
     Inl (Error ''invalid bumpSet version: next'') \<and>
   calculateNewVersion ''1.0.0'' Manual (Some ''2.0.0'') (Some []) = Inr ''2.0.0'' \<and>
   calculateNewVersion ''1.0.0'' Manual (Some ''next'') None =
     Inl (Error ''invalid custom version: next'') \<and>
   calculateNewVersion ''1.0.0'' Manual (Some []) None =
     Inl (Error (''either bumpSet (in reliverse.ts) or --customVersion required when bumpType is ''
                 @ [SQ] @ ''manual'' @ [SQ]))"
proof -
  have v: "isValidSemver ''2.0.0''" by code_simp
  have n: "\<not> isValidSemver ''next''" by code_simp
  show ?thesis
    using v n
      manual_bumpSet_precedence [of "''2.0.0''" "''1.0.0''" "Some ''9.9.9''" "Some []" "''2.0.0''"]
      manual_bumpSet_precedence [of "''next''" "''1.0.0''" "Some ''9.9.9''" "None" "''next''"]
      manual_bumpSet_precedence [of "''2.0.0''" "''1.0.0''" "Some ''2.0.0''" "Some []" "''2.0.0''"]
      manual_bumpSet_precedence [of "''next''" "''1.0.0''" "Some ''next''" "None" "''next''"]
      manual_bumpSet_precedence [of "''next''" "''1.0.0''" "Some []" "None" "''next''"]
    by simp
qed

subsection \<open>The batch update of the library, file by file\<close>

lemma bumpVersion_loop_step:
  "bumpVersion_loop dryRun newVersion fs acc (f # files) =
     bumpVersion_loop dryRun newVersion
       (apply_outcome dryRun fs f (file_outcome dryRun newVersion fs f))
       (acc @ entry_of f (file_outcome dryRun newVersion fs f)) files"
  by (simp add: file_outcome_def entry_of_def apply_outcome_def extractVersion_truthy
        writeFile_def failed_def succeeded_def
      split: sum.splits option.splits)

lemma apply_outcome_other:
  "g \<noteq> f \<Longrightarrow> node_of (apply_outcome dryRun fs f out) g = node_of fs g"
  by (simp add: apply_outcome_def split: outcome.splits)

lemma apply_outcome_write_error:
  "write_error (apply_outcome dryRun fs f out) = write_error fs"
  by (simp add: apply_outcome_def split: outcome.splits)

lemma file_outcome_cong:
  "node_of fs' g = node_of fs g \<Longrightarrow> write_error fs' g = write_error fs g \<Longrightarrow>
     file_outcome dryRun newVersion fs' g = file_outcome dryRun newVersion fs g"
  unfolding file_outcome_def readFile_def by metis

lemma loop_frame:
  "bumpVersion_loop dryRun newVersion fs acc files = (fs', rs) \<Longrightarrow>
     write_error fs' = write_error fs \<and> (\<forall>g. g \<notin> set files \<longrightarrow> node_of fs' g = node_of fs g) \<and>
     (dryRun \<longrightarrow> fs' = fs)"
proof (induction files arbitrary: fs acc)
  case Nil
  then show ?case by simp
next
  case (Cons f files)
  let ?o = "file_outcome dryRun newVersion fs f"
  from Cons.prems have "bumpVersion_loop dryRun newVersion (apply_outcome dryRun fs f ?o)
       (acc @ entry_of f ?o) files = (fs', rs)" by (simp only: bumpVersion_loop_step)
  from Cons.IH[OF this] show ?case
    by (auto simp: apply_outcome_write_error apply_outcome_other)
      (simp add: apply_outcome_def split: outcome.splits)
qed



lemma valid_plain: "isValidSemver T \<Longrightarrow> plain_version T"
  using valid_version_plain[of T] by (simp add: plain_version_def)





lemma extract_update_plain:
  assumes "extractVersion content fileType \<noteq> None" and "plain_version T"
  shows "\<exists>updated. updateVersionInContent content T fileType = Inr updated \<and>
           extractVersion updated fileType = Some T"
proof (cases fileType)
  case PackageJson
  with assms show ?thesis
    using roundtrip_packageJson[of content T] by (simp add: plain_version_def)
next
  case Typescript
  with assms show ?thesis
    using roundtrip_typescript[of content T] by (simp add: plain_version_def)
next
  case Unknown
  with assms(1) show ?thesis by (simp add: extractVersion_def)
qed

lemma typescript_replacement_canonical:
  assumes "is_eq_or_colon op" "is_quote d" "DQ \<notin> set T" "SQ \<notin> set T"
    "CHR ''='' \<notin> set T" "CHR '','' \<notin> set T"
  shows "typescript_replacement T (''version'' @ op # '' '' @ d # T @ [d]) =
           ''version'' @ op # '' '' @ d # T @ [d]"
  using assms
  by (auto simp: typescript_replacement_def includes_chr_def is_eq_or_colon_def is_quote_def)

lemma update_packageJson_idem:
  assumes v: "plain_version T" and e: "extractVersion c PackageJson \<noteq> None"
    and u: "updateVersionInContent c T PackageJson = Inr u"
  shows "updateVersionInContent u T PackageJson = Inr u"
proof -
  from e obtain pre m where ex: "exec packageJson_at c = Some (pre, m)"
    by (auto simp: extractVersion_def split: option.splits)
  from v have p: "T \<noteq> []" "DQ \<notin> set T" "CHR ''$'' \<notin> set T" by (simp_all add: plain_version_def)
  from update_packageJson[OF ex p(3)] u
  have ueq: "u = pre @ version_key_json @ '': '' @ [DQ] @ T @ [DQ] @ after m" by simp
  from exec_packageJson_updated[OF ex p(1,2)]
  have ex': "exec packageJson_at u =
     Some (pre, mk_match (version_key_json @ '': '' @ [DQ] @ T @ [DQ] @ after m) (Some T) None (after m))"
    unfolding ueq .
  from update_packageJson[OF ex' p(3)] show ?thesis unfolding ueq by simp
qed

lemma update_typescript_idem:
  assumes v: "plain_version T" and e: "extractVersion c Typescript \<noteq> None"
    and u: "updateVersionInContent c T Typescript = Inr u"
  shows "updateVersionInContent u T Typescript = Inr u \<and> test typescript_at u"
proof -
  from e obtain pre m where ex: "exec typescript_at c = Some (pre, m)"
    by (auto simp: extractVersion_def split: option.splits)
  from v have p: "T \<noteq> []" "DQ \<notin> set T" "SQ \<notin> set T" "CHR ''='' \<notin> set T" "CHR '','' \<notin> set T"
    by (simp_all add: plain_version_def)
  obtain op d comma where sh:
    "typescript_replacement T (matched m) = ''version'' @ op # '' '' @ d # T @ d # comma"
    "is_eq_or_colon op" "is_quote d"
    using typescript_replacement_shape[of T "matched m"] by blast
  have nq: "\<forall>c\<in>set T. \<not> is_quote c" using p(2,3) by (auto simp: is_quote_def)
  let ?rest = "comma @ after m"
  let ?decl = "''version'' @ op # '' '' @ d # T @ [d]"
  from u ex sh(1) have ueq: "u = pre @ ''version'' @ op # '' '' @ d # T @ d # ?rest"
    by (simp add: updateVersionInContent_def replace_fn_def)
  from exec_typescript_updated[OF ex p(1) nq sh(2,3), of ?rest]
  have ex': "exec typescript_at u =
     Some (pre, mk_match (''version'' @ op # '' '' @ d # T @ d # ?rest) (Some T) None ?rest)"
    unfolding ueq .
  have "matched (mk_match (?decl @ ?rest) (Some T) None ?rest) = ?decl"
    by (rule matched_mk_match)
  then have m': "matched (mk_match (''version'' @ op # '' '' @ d # T @ d # ?rest) (Some T) None ?rest) = ?decl"
    by simp
  have "updateVersionInContent u T Typescript = Inr (pre @ typescript_replacement T ?decl @ ?rest)"
    using ex' m' by (simp add: updateVersionInContent_def replace_fn_def)
  also have "typescript_replacement T ?decl = ?decl"
    by (rule typescript_replacement_canonical[OF sh(2,3) p(2,3,4,5)])
  finally have "updateVersionInContent u T Typescript = Inr u" unfolding ueq by simp
  moreover have "test typescript_at u" using ex' by (simp add: test_def)
  ultimately show ?thesis ..
qed

lemma outcome_after_write:
  assumes v: "plain_version T" and o: "file_outcome False T fs f = Done u"
  shows "file_outcome False T
           (fs\<lparr> node_of := (node_of fs)(f := File u), written := written fs @ [f] \<rparr>) f = Done u"
proof -
  let ?fs1 = "fs\<lparr> node_of := (node_of fs)(f := File u), written := written fs @ [f] \<rparr>"
  from o obtain c where c: "readFile fs f = Inr c" "detectFileType f c \<noteq> Unknown"
    "extractVersion c (detectFileType f c) \<noteq> None"
    "updateVersionInContent c T (detectFileType f c) = Inr u" "write_error fs f = None"
    by (auto simp: file_outcome_def split: sum.splits if_splits option.splits)
  have r1: "readFile ?fs1 f = Inr u" by (simp add: readFile_def)
  have ty: "detectFileType f u = detectFileType f c \<and>
            updateVersionInContent u T (detectFileType f c) = Inr u"
  proof (cases "detectFileType f c")
    case PackageJson
    then have "endsWith f ''package.json''" by (auto simp: detectFileType_def split: if_splits)
    then have "detectFileType f u = PackageJson" by (simp add: detectFileType_def)
    with PackageJson update_packageJson_idem[OF v] c(3,4) show ?thesis by simp
  next
    case Typescript
    then have "\<not> endsWith f ''package.json''" "endsWith f ''.ts'' \<or> endsWith f ''.js''"
      by (auto simp: detectFileType_def split: if_splits)
    moreover from update_typescript_idem[OF v] c(3,4) Typescript
    have "updateVersionInContent u T Typescript = Inr u" "test typescript_at u" by simp_all
    ultimately show ?thesis using Typescript by (simp add: detectFileType_def)
  next
    case Unknown
    with c(2) show ?thesis by simp
  qed
  from extract_update_plain[OF c(3) v] c(4)
  have ex: "extractVersion u (detectFileType f c) = Some T" by simp
  show ?thesis using r1 ty ex c(2,5) by (simp add: file_outcome_def)
qed

lemma outcome_stable:
  assumes v: "plain_version T"
  shows "file_outcome dryRun T (apply_outcome dryRun fs f (file_outcome dryRun T fs f)) g =
         file_outcome dryRun T fs g"
proof (cases "g = f")
  case False
  then show ?thesis
    by (intro file_outcome_cong) (simp_all add: apply_outcome_other apply_outcome_write_error)
next
  case True
  show ?thesis
  proof (cases "file_outcome dryRun T fs f")
    case Skipped
    then show ?thesis by (simp add: apply_outcome_def)
  next
    case (Failed msg)
    then show ?thesis by (simp add: apply_outcome_def)
  next
    case (Done u)
    show ?thesis
    proof (cases dryRun)
      case True
      with Done show ?thesis by (simp add: apply_outcome_def)
    next
      case False
      with Done outcome_after_write[OF v, of fs f u] \<open>g = f\<close> show ?thesis
        by (simp add: apply_outcome_def)
    qed
  qed
qed

lemma loop_outcomes:
  assumes v: "plain_version T"
  shows "bumpVersion_loop dryRun T fs acc files = (fs', rs) \<Longrightarrow>
     rs = acc @ entries_of dryRun T fs files \<and>
     (\<forall>g. file_outcome dryRun T fs' g = file_outcome dryRun T fs g) \<and>
     (\<forall>f\<in>set files.
        node_of fs' f =
          (case file_outcome dryRun T fs f of
             Done updatedContent \<Rightarrow> if dryRun then node_of fs f else File updatedContent
           | _ \<Rightarrow> node_of fs f))"
proof (induction files arbitrary: fs acc)
  case Nil
  then show ?case by (simp add: entries_of_def)
next
  case (Cons f files)
  let ?o = "file_outcome dryRun T fs f"
  let ?fs1 = "apply_outcome dryRun fs f ?o"
  from Cons.prems have l: "bumpVersion_loop dryRun T ?fs1 (acc @ entry_of f ?o) files = (fs', rs)"
    by (simp only: bumpVersion_loop_step)
  have same: "file_outcome dryRun T ?fs1 g = file_outcome dryRun T fs g" for g
    by (rule outcome_stable[OF v])
  from Cons.IH[OF l]
  have ih: "rs = (acc @ entry_of f ?o) @ entries_of dryRun T ?fs1 files"
    "\<forall>g. file_outcome dryRun T fs' g = file_outcome dryRun T ?fs1 g"
    "\<forall>g\<in>set files. node_of fs' g =
          (case file_outcome dryRun T ?fs1 g of
             Done updatedContent \<Rightarrow> if dryRun then node_of ?fs1 g else File updatedContent
           | _ \<Rightarrow> node_of ?fs1 g)" by simp_all
  have e: "entries_of dryRun T ?fs1 files = entries_of dryRun T fs files"
    unfolding entries_of_def using same by simp
  have rs: "rs = acc @ entries_of dryRun T fs (f # files)"
    using ih(1) e by (simp add: entries_of_def)
  have st: "\<forall>g. file_outcome dryRun T fs' g = file_outcome dryRun T fs g"
    using ih(2) same by simp
  have step: "node_of ?fs1 g =
      (if g = f then (case ?o of
             Done updatedContent \<Rightarrow> if dryRun then node_of fs f else File updatedContent
           | _ \<Rightarrow> node_of fs f) else node_of fs g)" for g
    by (simp add: apply_outcome_def split: outcome.splits)
  have nodes: "node_of fs' g =
          (case file_outcome dryRun T fs g of
             Done updatedContent \<Rightarrow> if dryRun then node_of fs g else File updatedContent
           | _ \<Rightarrow> node_of fs g)" if g: "g \<in> set (f # files)" for g
  proof (cases "g \<in> set files")
    case True
    with ih(3) have "node_of fs' g =
          (case file_outcome dryRun T ?fs1 g of
             Done updatedContent \<Rightarrow> if dryRun then node_of ?fs1 g else File updatedContent
           | _ \<Rightarrow> node_of ?fs1 g)" by blast
    then show ?thesis unfolding same step by (simp split: outcome.splits)
  next
    case False
    with g have gf: "g = f" by simp
    from loop_frame[OF l] False gf have "node_of fs' f = node_of ?fs1 f" by simp
    then show ?thesis unfolding gf step by simp
  qed
  from rs st nodes show ?case by blast
qed


lemma bumpVersion_dry_run:
  "o_dryRun options \<Longrightarrow> fst (bumpVersion env fs bumpType files options globs bumpSet) = fs"
proof -
  assume dr: "o_dryRun options"
  have "fst (bumpVersion_loop True newVersion fs [] fl) = fs" for newVersion fl
    using loop_frame[of True newVersion fs "[]" fl] by (cases "bumpVersion_loop True newVersion fs [] fl") simp
  then have "bumpVersion_loop True newVersion fs [] fl = (x, y) \<Longrightarrow> x = fs" for newVersion fl x y
    by (metis fst_conv)
  then show ?thesis using dr
    by (auto simp: bumpVersion_def split: sum.splits prod.splits)
qed

subsection \<open>The batch update of the command-line implementation, file by file\<close>






subsection \<open>Failures of single files\<close>




subsection \<open>Dry run\<close>

text \<open>
  Claim C1. The handler of the command-line implementation, run with \<open>dryRun\<close> on a
  project whose manifest is at version 1.2.3, completes without an error, reports that it
  would update the manifest, and has written the manifest with the version 1.2.4.
\<close>

theorem dry_run_writes_manifest:
  "node_of fs_project ''package.json'' =
     File (''{ '' @ version_key_json @ '': '' @ [DQ] @ ''1.2.3'' @ [DQ] @ '' }'') \<and>
   snd (bumpHandler cli_env_example fs_project AutoPatch False [] True) = Inr () \<and>
   node_of (b_fs (fst (bumpHandler cli_env_example fs_project AutoPatch False [] True))) ''package.json''
     = File (''{ '' @ version_key_json @ '': '' @ [DQ] @ ''1.2.4'' @ [DQ] @ '' }'') \<and>
   written (b_fs (fst (bumpHandler cli_env_example fs_project AutoPatch False [] True)))
     = [''package.json''] \<and>
   b_log (fst (bumpHandler cli_env_example fs_project AutoPatch False [] True))
     = [''[dry run] Would update version in: package.json'']"
  by code_simp

subsection \<open>A second run with the same version\<close>

lemma loop_twice:
  assumes v: "plain_version T"
    and l1: "bumpVersion_loop False T fs acc files = (fs1, rs1)"
    and l2: "bumpVersion_loop False T fs1 acc' files = (fs2, rs2)"
  shows "node_of fs2 = node_of fs1"
proof
  fix g
  show "node_of fs2 g = node_of fs1 g"
  proof (cases "g \<in> set files")
    case False
    with loop_frame[OF l2] show ?thesis by simp
  next
    case True
    from loop_outcomes[OF v l1] True
    have s1: "file_outcome False T fs1 g = file_outcome False T fs g"
      and n1: "node_of fs1 g =
          (case file_outcome False T fs g of Done updatedContent \<Rightarrow> File updatedContent
           | _ \<Rightarrow> node_of fs g)" by (simp_all cong: outcome.case_cong)
    from loop_outcomes[OF v l2] True
    have n2: "node_of fs2 g =
          (case file_outcome False T fs1 g of Done updatedContent \<Rightarrow> File updatedContent
           | _ \<Rightarrow> node_of fs1 g)" by (simp cong: outcome.case_cong)
    show ?thesis unfolding n2 s1 using n1 by (simp split: outcome.splits)
  qed
qed

lemma calculateNewVersion_manual:
  "calculateNewVersion current Manual customVersion bumpSet =
     calculateNewVersion current' Manual customVersion bumpSet"
  by (simp add: calculateNewVersion_def)

lemma calculateNewVersion_manual_valid:
  "calculateNewVersion current Manual customVersion bumpSet = Inr T \<Longrightarrow> isValidSemver T"
  by (auto simp: calculateNewVersion_def split: option.splits if_splits)

lemma bumpVersion_manual_fst:
  "fst (bumpVersion env fs Manual files options globs bumpSet) = fs \<or>
   (\<exists>T. isValidSemver T \<and>
      (\<forall>current. calculateNewVersion current Manual (o_customVersion options) bumpSet = Inr T) \<and>
      fst (bumpVersion env fs Manual files options globs bumpSet) =
        fst (bumpVersion_loop (o_dryRun options) T fs []
               (filter (\<lambda>file'. matchesGlobs env file' globs) files)))"
proof (cases "getCurrentVersion env fs ''package.json'' ''version''")
  case (Inl e)
  then show ?thesis by (simp add: bumpVersion_def)
next
  case (Inr cur)
  show ?thesis
  proof (cases "calculateNewVersion cur Manual (o_customVersion options) bumpSet")
    case (Inl e)
    with Inr show ?thesis by (simp add: bumpVersion_def)
  next
    case T: (Inr T)
    have "\<forall>current. calculateNewVersion current Manual (o_customVersion options) bumpSet = Inr T"
      using T calculateNewVersion_manual[of _ "o_customVersion options" bumpSet cur] by simp
    moreover have "isValidSemver T" using T by (rule calculateNewVersion_manual_valid)
    moreover have "fst (bumpVersion env fs Manual files options globs bumpSet) =
        fst (bumpVersion_loop (o_dryRun options) T fs []
               (filter (\<lambda>file'. matchesGlobs env file' globs) files))"
      using Inr T by (simp add: bumpVersion_def split: prod.splits)
    ultimately show ?thesis by blast
  qed
qed

lemma bumpVersion_manual_twice:
  "node_of (fst (bumpVersion env (fst (bumpVersion env fs Manual files options globs bumpSet))
                   Manual files options globs bumpSet)) =
   node_of (fst (bumpVersion env fs Manual files options globs bumpSet))"
proof (cases "o_dryRun options")
  case True
  then show ?thesis by (simp add: bumpVersion_dry_run)
next
  case False
  let ?fl = "filter (\<lambda>file'. matchesGlobs env file' globs) files"
  let ?fs1 = "fst (bumpVersion env fs Manual files options globs bumpSet)"
  from bumpVersion_manual_fst[of env ?fs1 files options globs bumpSet]
  show ?thesis
  proof
    assume "fst (bumpVersion env ?fs1 Manual files options globs bumpSet) = ?fs1"
    then show ?thesis by simp
  next
    assume "\<exists>T. isValidSemver T \<and>
      (\<forall>current. calculateNewVersion current Manual (o_customVersion options) bumpSet = Inr T) \<and>
      fst (bumpVersion env ?fs1 Manual files options globs bumpSet) =
        fst (bumpVersion_loop (o_dryRun options) T ?fs1 [] ?fl)"
    then obtain T where T: "isValidSemver T"
      "\<forall>current. calculateNewVersion current Manual (o_customVersion options) bumpSet = Inr T"
      "fst (bumpVersion env ?fs1 Manual files options globs bumpSet) =
         fst (bumpVersion_loop False T ?fs1 [] ?fl)"
      using False by auto
    from bumpVersion_manual_fst[of env fs files options globs bumpSet]
    show ?thesis
    proof
      assume same: "?fs1 = fs"
      have "bumpVersion env ?fs1 Manual files options globs bumpSet =
            bumpVersion env fs Manual files options globs bumpSet"
        using same by simp
      then show ?thesis using same by simp
    next
      assume "\<exists>T'. isValidSemver T' \<and>
        (\<forall>current. calculateNewVersion current Manual (o_customVersion options) bumpSet = Inr T') \<and>
        ?fs1 = fst (bumpVersion_loop (o_dryRun options) T' fs [] ?fl)"
      then obtain T' where T': 
        "\<forall>current. calculateNewVersion current Manual (o_customVersion options) bumpSet = Inr T'"
        "?fs1 = fst (bumpVersion_loop False T' fs [] ?fl)"
        using False by auto
      from T(2) T'(1) have "T' = T" by (metis sum.inject(2))
      with T'(2) have l1: "bumpVersion_loop False T fs [] ?fl =
          (?fs1, snd (bumpVersion_loop False T fs [] ?fl))" by simp
      have l2: "bumpVersion_loop False T ?fs1 [] ?fl =
          (fst (bumpVersion_loop False T ?fs1 [] ?fl), snd (bumpVersion_loop False T ?fs1 [] ?fl))"
        by simp
      from loop_twice[OF valid_plain[OF T(1)] l1 l2] T(3) show ?thesis by simp
    qed
  qed
qed

text \<open>
  Claim C4. When the version to set equals the current version, the handler of the
  command-line implementation with a custom version completes without an error and
  leaves the file system as it found it, without a call of the batch update. And a
  second run of the batch update of the library in manual mode, with the same
  target version, leaves every file with the content that the first run gave it.
\<close>

theorem same_version_no_change:
  "(\<not> bumpDisable \<and> getCurrentVersion_old cenv cfs mainFile = Inr v \<and> semver_valid v \<longrightarrow>
      bumpHandler_old cenv cfs CustomVersion bumpDisable bumpFilter dryRun mainFile (Some v) =
        (\<lparr> b_fs = cfs, b_modifiedFiles = [], b_log = [] \<rparr>, Inr ())) \<and>
   node_of (fst (bumpVersion env (fst (bumpVersion env fs Manual files options globs bumpSet))
                   Manual files options globs bumpSet)) =
     node_of (fst (bumpVersion env fs Manual files options globs bumpSet))"
proof
  show "\<not> bumpDisable \<and> getCurrentVersion_old cenv cfs mainFile = Inr v \<and> semver_valid v \<longrightarrow>
      bumpHandler_old cenv cfs CustomVersion bumpDisable bumpFilter dryRun mainFile (Some v) =
        (\<lparr> b_fs = cfs, b_modifiedFiles = [], b_log = [] \<rparr>, Inr ())"
  proof
    assume a: "\<not> bumpDisable \<and> getCurrentVersion_old cenv cfs mainFile = Inr v \<and> semver_valid v"
    then have "isValidSemver v" by (simp add: isValidSemver_def)
    from valid_version_plain(1)[OF this] have "truthy (Some v) = Some v"
      by (cases v) simp_all
    with a show "bumpHandler_old cenv cfs CustomVersion bumpDisable bumpFilter dryRun mainFile (Some v) =
        (\<lparr> b_fs = cfs, b_modifiedFiles = [], b_log = [] \<rparr>, Inr ())"
      by (simp add: bumpHandler_old_def Let_def)
  qed
next
  show "node_of (fst (bumpVersion env (fst (bumpVersion env fs Manual files options globs bumpSet))
                   Manual files options globs bumpSet)) =
     node_of (fst (bumpVersion env fs Manual files options globs bumpSet))"
    by (rule bumpVersion_manual_twice)
qed

theorem same_version_no_change_witness:
  "\<not> False \<and> getCurrentVersion_old cli_env_absolute fs_absolute ''/project/package.json'' = Inr ''1.2.3'' \<and>
   semver_valid ''1.2.3'' \<and>
   bumpHandler_old cli_env_absolute fs_absolute CustomVersion False [] False ''/project/package.json''
       (Some ''1.2.3'') =
     (\<lparr> b_fs = fs_absolute, b_modifiedFiles = [], b_log = [] \<rparr>, Inr ()) \<and>
   node_of (fst (bumpVersion js_env_example fs_compact Manual [''package.json''] options_example []
                   (Some ''1.0.0''))) ''package.json'' =
     File (''{'' @ version_key_json @ '': '' @ [DQ] @ ''1.0.0'' @ [DQ] @ ''}'') \<and>
   node_of (fst (bumpVersion js_env_example
                   (fst (bumpVersion js_env_example fs_compact Manual [''package.json'']
                           options_example [] (Some ''1.0.0'')))
                   Manual [''package.json''] options_example [] (Some ''1.0.0''))) =
     node_of (fst (bumpVersion js_env_example fs_compact Manual [''package.json''] options_example []
                     (Some ''1.0.0'')))"
proof -
  have g: "getCurrentVersion_old cli_env_absolute fs_absolute ''/project/package.json'' = Inr ''1.2.3''"
    by code_simp
  have s: "semver_valid ''1.2.3''" by code_simp
  have n: "node_of (fst (bumpVersion js_env_example fs_compact Manual [''package.json'']
                   options_example [] (Some ''1.0.0''))) ''package.json'' =
     File (''{'' @ version_key_json @ '': '' @ [DQ] @ ''1.0.0'' @ [DQ] @ ''}'')"
    by code_simp
  from same_version_no_change[of False cli_env_absolute fs_absolute "''/project/package.json''" "''1.2.3''"
      "[]" False js_env_example fs_compact "[''package.json'']" options_example "[]" "Some ''1.0.0''"]
    g s n
  show ?thesis by blast
qed

text \<open>
  The batch update of the library has no test of the new version against the current
  one. With the manifest \<open>{"version":"1.0.0"}\<close>, whose current version is 1.0.0, a run in
  manual mode that sets 1.0.0 completes without an error and writes the manifest with
  another content.
\<close>

theorem bumpVersion_same_version_counterexample:
  "getCurrentVersion js_env_example fs_compact ''package.json'' ''version'' = Inr ''1.0.0'' \<and>
   calculateNewVersion ''1.0.0'' Manual (o_customVersion options_example) (Some ''1.0.0'') =
     Inr ''1.0.0'' \<and>
   snd (bumpVersion js_env_example fs_compact Manual [''package.json''] options_example []
          (Some ''1.0.0'')) = Inr () \<and>
   node_of fs_compact ''package.json'' =
     File (''{'' @ version_key_json @ '':'' @ [DQ] @ ''1.0.0'' @ [DQ] @ ''}'') \<and>
   node_of (fst (bumpVersion js_env_example fs_compact Manual [''package.json''] options_example []
                   (Some ''1.0.0''))) ''package.json'' =
     File (''{'' @ version_key_json @ '': '' @ [DQ] @ ''1.0.0'' @ [DQ] @ ''}'') \<and>
   written (fst (bumpVersion js_env_example fs_compact Manual [''package.json''] options_example []
                   (Some ''1.0.0''))) = [''package.json'']"
  by code_simp

end
